theory Spec2Isabelle
  imports Main
begin

section \<open>Strings as the JavaScript code uses them\<close>

text \<open>
  Template strings render a line number in decimal. Line numbers are non-negative
  integers (the spec's data model), so \<open>show_nat\<close> is the rendering of
  \<open>${iss.line}\<close>.
\<close>

definition digit_char :: "nat \<Rightarrow> char" where
  "digit_char d = ''0123456789'' ! d"

function show_nat :: "nat \<Rightarrow> string" where
  "show_nat n = (if n < 10 then [digit_char n] else show_nat (n div 10) @ [digit_char (n mod 10)])"
  by pat_completeness auto
termination
  by (relation "measure (\<lambda>n. n)") auto

declare show_nat.simps [simp del]

text \<open>\<open>String.prototype.startsWith\<close> and \<open>String.prototype.includes\<close>.\<close>

fun startsWith :: "string \<Rightarrow> string \<Rightarrow> bool" where
  "startsWith s [] = True"
| "startsWith [] (c # cs) = False"
| "startsWith (x # xs) (c # cs) = (x = c \<and> startsWith xs cs)"

fun str_includes :: "string \<Rightarrow> string \<Rightarrow> bool" where
  "str_includes [] sub = (sub = [])"
| "str_includes (x # xs) sub = (startsWith (x # xs) sub \<or> str_includes xs sub)"

text \<open>\<open>s.substring(0, n)\<close>.\<close>

definition substring0 :: "string \<Rightarrow> nat \<Rightarrow> string" where
  "substring0 s n = take n s"

section \<open>The issue ledger (issues_log.json)\<close>

datatype status = OPEN | FIXED | FAILED_FILE_NOT_FOUND | FAILED_GENERATION

text \<open>
  An entry of \<open>issues_log.json\<close>. An issue reported by the diagnostic call has the same
  shape (the JSON asked for carries file, type, line, description and status); the
  orchestrator copies all of its fields into the entry it appends.
\<close>

record issue =
  "file" :: string
  type :: string
  line :: nat
  description :: string
  status :: status
  discoveredAt :: "nat option"
  fixedAt :: "string option"

text \<open>The key \<open>`${iss.file}::${iss.type}::${iss.line}`\<close> and the line-0 key.\<close>

definition issue_key :: "issue \<Rightarrow> string" where
  "issue_key iss = file iss @ ''::'' @ type iss @ ''::'' @ show_nat (line iss)"

definition fuzzy_key :: "issue \<Rightarrow> string" where
  "fuzzy_key disc = file disc @ ''::'' @ type disc @ ''::0''"

definition match_keys :: "issue \<Rightarrow> string list" where
  "match_keys disc = [issue_key disc, fuzzy_key disc]"

text \<open>
  \<open>Array.prototype.find\<close> returns a reference to the first element that satisfies the
  predicate; the reference is the element's index in the array.
\<close>

fun find_index :: "('a \<Rightarrow> bool) \<Rightarrow> 'a list \<Rightarrow> nat option" where
  "find_index P [] = None"
| "find_index P (x # xs) = (if P x then Some 0 else map_option Suc (find_index P xs))"

definition existingFixed :: "issue \<Rightarrow> issue list \<Rightarrow> nat option" where
  "existingFixed disc issues =
     find_index (\<lambda>iss. issue_key iss \<in> set (match_keys disc) \<and> status iss = FIXED) issues"

definition addressedKeys :: "issue list \<Rightarrow> string list" where
  "addressedKeys issues = map issue_key (filter (\<lambda>iss. status iss \<noteq> OPEN) issues)"

definition regression_note :: string where
  "regression_note = '' [NOTE: Previous fix failed. Try a different approach.]''"

definition reopen :: "issue \<Rightarrow> issue" where
  "reopen iss = iss\<lparr>status := OPEN, description := description iss @ regression_note\<rparr>"

text \<open>
  The state of the scan over the discovered issues: the in-memory log, the new issues
  and the reopened ones. \<open>reOpenedIssues\<close> holds references into the log, so it is a list
  of indices.
\<close>

record merge_state =
  issues :: "issue list"
  newIssues :: "issue list"
  reOpenedIssues :: "nat list"

definition scan_step :: "string list \<Rightarrow> issue \<Rightarrow> merge_state \<Rightarrow> merge_state" where
  "scan_step addressed disc st =
     (case existingFixed disc (issues st) of
        Some j \<Rightarrow> st\<lparr>issues := (issues st)[j := reopen (issues st ! j)],
                     reOpenedIssues := reOpenedIssues st @ [j]\<rparr>
      | None \<Rightarrow> if issue_key disc \<notin> set addressed
                then st\<lparr>newIssues := newIssues st @ [disc]\<rparr>
                else st)"

fun scan_discovered :: "string list \<Rightarrow> issue list \<Rightarrow> merge_state \<Rightarrow> merge_state" where
  "scan_discovered addressed [] st = st"
| "scan_discovered addressed (disc # rest) st =
     scan_discovered addressed rest (scan_step addressed disc st)"

text \<open>Step E: the new issues are appended unless their key is in \<open>existingKeys\<close>,
  a set built once, before the loop.\<close>

fun push_new :: "string list \<Rightarrow> nat \<Rightarrow> issue list \<Rightarrow> issue list \<Rightarrow> issue list" where
  "push_new existingKeys i [] log_issues = log_issues"
| "push_new existingKeys i (iss # rest) log_issues =
     push_new existingKeys i rest
       (if issue_key iss \<notin> set existingKeys
        then log_issues @ [iss\<lparr>status := OPEN, discoveredAt := Some i\<rparr>]
        else log_issues)"

text \<open>
  Steps C to E of one iteration: the log as read, the discovered issues and the
  iteration number give the scan's result and the log to write. When nothing is new and
  nothing is reopened the loop breaks before step E and nothing is written; the
  in-memory log then equals the log as read.
\<close>

definition scan_log :: "issue list \<Rightarrow> issue list \<Rightarrow> merge_state" where
  "scan_log currentLog discovered =
     scan_discovered (addressedKeys currentLog) discovered
       \<lparr>issues = currentLog, newIssues = [], reOpenedIssues = []\<rparr>"

definition nothing_found :: "merge_state \<Rightarrow> bool" where
  "nothing_found st = (newIssues st = [] \<and> reOpenedIssues st = [])"

definition merge_issues :: "issue list \<Rightarrow> issue list \<Rightarrow> nat \<Rightarrow> issue list" where
  "merge_issues currentLog discovered i =
     (let st = scan_log currentLog discovered in
      if nothing_found st then issues st
      else push_new (map issue_key (issues st)) i (newIssues st) (issues st))"

text \<open>The reopened entries as the log holds them after the merge.\<close>

definition reopened_entries :: "issue list \<Rightarrow> issue list \<Rightarrow> nat \<Rightarrow> issue list" where
  "reopened_entries currentLog discovered i =
     map (\<lambda>j. merge_issues currentLog discovered i ! j)
       (reOpenedIssues (scan_log currentLog discovered))"

section \<open>Status updates by the solver\<close>

text \<open>
  \<open>updateIssueStatus\<close> re-reads the log, finds the first entry whose file, type and
  line equal the arguments, and overwrites its status and its \<open>fixedAt\<close> with the
  current time, whatever the new status is. The log file is taken to be readable and
  writable throughout a run.
\<close>

definition updateIssueStatus ::
    "string \<Rightarrow> string \<Rightarrow> nat \<Rightarrow> status \<Rightarrow> string \<Rightarrow> issue list \<Rightarrow> issue list" where
  "updateIssueStatus f t l newStatus now log_issues =
     (case find_index (\<lambda>i. file i = f \<and> type i = t \<and> line i = l) log_issues of
        None \<Rightarrow> log_issues
      | Some j \<Rightarrow> log_issues[j := (log_issues ! j)\<lparr>status := newStatus, fixedAt := Some now\<rparr>])"

text \<open>
  The two operations that change the persisted ledger: a merge of discovered issues at
  an iteration, and a status update at a time stamp.
\<close>

datatype ledger_op =
    Merge "issue list" nat
  | MarkResolved string string nat status string

fun apply_op :: "issue list \<Rightarrow> ledger_op \<Rightarrow> issue list" where
  "apply_op log_issues (Merge discovered i) = merge_issues log_issues discovered i"
| "apply_op log_issues (MarkResolved f t l newStatus now) =
     updateIssueStatus f t l newStatus now log_issues"

definition run_ops :: "ledger_op list \<Rightarrow> issue list \<Rightarrow> issue list" where
  "run_ops ops log_issues = foldl apply_op log_issues ops"

section \<open>The solver (runSolver)\<close>

text \<open>
  An awaited call either returns a value or throws an error with a message. Every
  awaited call is taken to settle.
\<close>

datatype 'a attempt = Returns 'a | Throws string

text \<open>
  What a path of the clone holds. \<open>fs.existsSync\<close> is true of a directory as of a regular
  file; \<open>fs.readFileSync\<close> throws on a directory.
\<close>

datatype fs_node = RegularFile string | Directory

text \<open>
  The solver's surroundings: \<open>resolve\<close>, which is \<open>path.join(localPath, file)\<close> of Node's
  library (two spellings of a path, such as \<open>a.py\<close> and \<open>./a.py\<close>, resolve to one); the
  repair call for the \<open>k\<close>-th issue of the batch (given the issue, the file's content
  and the test output snippet), which stands for everything between reading the file and
  writing the fixed content and throws when any of it throws; and the clock read by each
  status update.
\<close>

record solver_env =
  resolve :: "string \<Rightarrow> string"
  repair_oracle :: "nat \<Rightarrow> issue \<Rightarrow> string \<Rightarrow> string \<Rightarrow> string attempt"
  clock :: "nat \<Rightarrow> string"

text \<open>An entry of \<open>fixesApplied\<close>: file, type, description and line.\<close>

type_synonym applied_fix = "string \<times> string \<times> string \<times> nat"

text \<open>
  What the solver changes: the log file, the working tree (a map from resolved paths to
  what they hold) and its list of applied fixes. No issue's file is taken to resolve to
  the path of \<open>issues_log.json\<close> itself, so the log is kept apart from the tree.
\<close>

record solver_state =
  issues_log :: "issue list"
  tree :: "string \<rightharpoonup> fs_node"
  fixesApplied :: "applied_fix list"

definition solve_issue :: "solver_env \<Rightarrow> string \<Rightarrow> nat \<Rightarrow> issue \<Rightarrow> solver_state \<Rightarrow> solver_state" where
  "solve_issue E testSnippet k iss st =
     (case tree st (resolve E (file iss)) of
        None \<Rightarrow>
          st\<lparr>issues_log := updateIssueStatus (file iss) (type iss) (line iss)
                  FAILED_FILE_NOT_FOUND (clock E k) (issues_log st)\<rparr>
      | Some Directory \<Rightarrow>
          st\<lparr>issues_log := updateIssueStatus (file iss) (type iss) (line iss)
                  FAILED_GENERATION (clock E k) (issues_log st)\<rparr>
      | Some (RegularFile fileContent) \<Rightarrow>
          (case repair_oracle E k iss fileContent testSnippet of
             Throws e \<Rightarrow>
               st\<lparr>issues_log := updateIssueStatus (file iss) (type iss) (line iss)
                       FAILED_GENERATION (clock E k) (issues_log st)\<rparr>
           | Returns fixedContent \<Rightarrow>
               st\<lparr>tree := (tree st)(resolve E (file iss) \<mapsto> RegularFile fixedContent),
                    issues_log := updateIssueStatus (file iss) (type iss) (line iss)
                       FIXED (clock E k) (issues_log st),
                    fixesApplied := fixesApplied st
                       @ [(file iss, type iss, description iss, line iss)]\<rparr>))"

fun solve_loop :: "solver_env \<Rightarrow> string \<Rightarrow> nat \<Rightarrow> issue list \<Rightarrow> solver_state \<Rightarrow> solver_state" where
  "solve_loop E testSnippet k [] st = st"
| "solve_loop E testSnippet k (iss # rest) st =
     solve_loop E testSnippet (Suc k) rest (solve_issue E testSnippet k iss st)"

definition runSolver ::
    "solver_env \<Rightarrow> issue list \<Rightarrow> string \<Rightarrow> issue list \<Rightarrow> (string \<rightharpoonup> fs_node) \<Rightarrow> solver_state" where
  "runSolver E openIssues testOutput log_issues files =
     (if openIssues = []
      then \<lparr>issues_log = log_issues, tree = files, fixesApplied = []\<rparr>
      else solve_loop E (substring0 testOutput 3000) 0 openIssues
             \<lparr>issues_log = log_issues, tree = files, fixesApplied = []\<rparr>)"

text \<open>The triple \<open>updateIssueStatus\<close> compares.\<close>

definition key3 :: "issue \<Rightarrow> string \<times> string \<times> nat" where
  "key3 iss = (file iss, type iss, line iss)"

text \<open>The status the solver writes for an issue.\<close>

definition outcome_status :: "solver_env \<Rightarrow> string \<Rightarrow> nat \<Rightarrow> issue \<Rightarrow> solver_state \<Rightarrow> status" where
  "outcome_status E snip k iss st =
     (case tree st (resolve E (file iss)) of
        None \<Rightarrow> FAILED_FILE_NOT_FOUND
      | Some Directory \<Rightarrow> FAILED_GENERATION
      | Some (RegularFile c) \<Rightarrow>
          (case repair_oracle E k iss c snip of
             Throws e \<Rightarrow> FAILED_GENERATION | Returns x \<Rightarrow> FIXED))"

section \<open>The sandbox (runTestsInSandbox)\<close>

record sandbox_result =
  success :: bool
  "output" :: string

text \<open>
  The Docker daemon as one call of \<open>runTestsInSandbox\<close> meets it: what each awaited
  call does. The stream either ends, with the captured output, or emits an error;
  \<open>exec_inspect\<close> gives the exit code.
\<close>

record docker =
  createContainer :: "unit attempt"
  container_start :: "unit attempt"
  container_putArchive :: "unit attempt"
  container_exec :: "unit attempt"
  exec_start :: "unit attempt"
  stream_end :: "string attempt"
  exec_inspect :: "int attempt"
  container_stop :: "unit attempt"
  container_remove :: "unit attempt"

datatype docker_call =
    CreateContainer string | Start | PutArchive string | Exec string | ExecStart
  | Inspect | Stop | Remove

datatype console_error = SandboxError string | CleanupError string

text \<open>The \<open>try\<close> block: the calls made, whether \<open>container\<close> was assigned, and the
  value returned or the error thrown.\<close>

definition sandbox_try ::
    "docker \<Rightarrow> string \<Rightarrow> string \<Rightarrow> string \<Rightarrow> docker_call list \<times> bool \<times> sandbox_result attempt" where
  "sandbox_try D localPath testCmd imageName =
    (case createContainer D of
       Throws e \<Rightarrow> ([CreateContainer imageName], False, Throws e)
     | Returns _ \<Rightarrow>
    (case container_start D of
       Throws e \<Rightarrow> ([CreateContainer imageName, Start], True, Throws e)
     | Returns _ \<Rightarrow>
    (case container_putArchive D of
       Throws e \<Rightarrow> ([CreateContainer imageName, Start, PutArchive localPath], True, Throws e)
     | Returns _ \<Rightarrow>
    (case container_exec D of
       Throws e \<Rightarrow>
         ([CreateContainer imageName, Start, PutArchive localPath, Exec testCmd], True, Throws e)
     | Returns _ \<Rightarrow>
    (case exec_start D of
       Throws e \<Rightarrow>
         ([CreateContainer imageName, Start, PutArchive localPath, Exec testCmd, ExecStart],
          True, Throws e)
     | Returns _ \<Rightarrow>
    (case stream_end D of
       Throws e \<Rightarrow>
         ([CreateContainer imageName, Start, PutArchive localPath, Exec testCmd, ExecStart],
          True, Throws e)
     | Returns out \<Rightarrow>
    (case exec_inspect D of
       Throws e \<Rightarrow>
         ([CreateContainer imageName, Start, PutArchive localPath, Exec testCmd, ExecStart,
           Inspect], True, Throws e)
     | Returns exitCode \<Rightarrow>
         ([CreateContainer imageName, Start, PutArchive localPath, Exec testCmd, ExecStart,
           Inspect], True, Returns \<lparr>success = (exitCode = 0), output = out\<rparr>))))))))"

text \<open>The \<open>catch\<close> block.\<close>

definition sandbox_catch :: "sandbox_result attempt \<Rightarrow> sandbox_result \<times> console_error list" where
  "sandbox_catch outcome =
     (case outcome of
        Returns r \<Rightarrow> (r, [])
      | Throws e \<Rightarrow>
          (\<lparr>success = False, output = ''Sandbox execution failed: '' @ e\<rparr>, [SandboxError e]))"

text \<open>The \<open>finally\<close> block: \<open>stop\<close> and \<open>remove\<close> share one \<open>try\<close>.\<close>

definition sandbox_finally :: "docker \<Rightarrow> bool \<Rightarrow> docker_call list \<times> console_error list" where
  "sandbox_finally D container =
     (if container then
        (case container_stop D of
           Throws e \<Rightarrow> ([Stop], [CleanupError e])
         | Returns _ \<Rightarrow>
             (case container_remove D of
                Throws e \<Rightarrow> ([Stop, Remove], [CleanupError e])
              | Returns _ \<Rightarrow> ([Stop, Remove], [])))
      else ([], []))"

record sandbox_run =
  result :: sandbox_result
  api_calls :: "docker_call list"
  console_errors :: "console_error list"

definition runTestsInSandbox :: "docker \<Rightarrow> string \<Rightarrow> string \<Rightarrow> string \<Rightarrow> sandbox_run" where
  "runTestsInSandbox D localPath testCmd imageName =
     (case sandbox_try D localPath testCmd imageName of
        (calls, container, outcome) \<Rightarrow>
          (case sandbox_catch outcome of
             (res, errs) \<Rightarrow>
               (case sandbox_finally D container of
                  (cleanup_calls, cleanup_errs) \<Rightarrow>
                    \<lparr>result = res, api_calls = calls @ cleanup_calls,
                     console_errors = errs @ cleanup_errs\<rparr>)))"

section \<open>The Python engine and the legacy pipeline's test step\<close>

definition python_testCmd :: string where
  "python_testCmd =
     ''pip install -r requirements.txt flake8 pytest && '' @ [CHR 0x0A] @
     ''                         flake8 . --count --select=E9,F63,F7,F82,F401 --show-source --statistics && ''
     @ [CHR 0x0A] @ ''                         pytest''"

text \<open>\<open>enginePython.run\<close> returns what the sandbox returns.\<close>

definition enginePython_run :: "docker \<Rightarrow> string \<Rightarrow> string \<Rightarrow> sandbox_result" where
  "enginePython_run D localPath subDir =
     result (runTestsInSandbox D localPath python_testCmd ''python:3.9-alpine'')"

text \<open>
  \<open>runTests\<close> of the legacy pipeline: the Python check, then the Node.js check. Its
  surroundings are the manifest files present, the scripts of \<open>package.json\<close> (test, lint,
  build; \<open>None\<close> when it has no \<open>scripts\<close>; a throw when it cannot be parsed), and the
  daemon as each of the two sandbox calls meets it.
\<close>

record legacy_env =
  requirements_txt :: bool
  root_package_json :: bool
  frontend_package_json :: bool
  package_scripts :: "(bool \<times> bool \<times> bool) option attempt"
  python_docker :: docker
  node_docker :: docker

definition legacy_python_cmd :: string where
  "legacy_python_cmd =
     ''pip install flake8 pytest && flake8 . --count --select=E9,F63,F7,F82,F401 --show-source --statistics && pytest''"

fun join :: "string list \<Rightarrow> string \<Rightarrow> string" where
  "join [] sep = []"
| "join [x] sep = x"
| "join (x # y # ys) sep = x @ sep @ join (y # ys) sep"

definition node_commands :: "(bool \<times> bool \<times> bool) option attempt \<Rightarrow> string list" where
  "node_commands scripts =
     (case scripts of
        Throws e \<Rightarrow> [''npm install'']
      | Returns None \<Rightarrow> [''npm install'']
      | Returns (Some (has_test, has_lint, has_build)) \<Rightarrow>
          [''npm install'']
          @ (if has_test then [''npm test''] else [])
          @ (if has_lint then [''npm run lint''] else [])
          @ (if \<not> has_test \<and> \<not> has_lint \<and> has_build then [''npm run build''] else []))"

record test_report =
  testOutput :: string
  passed :: bool

definition runTests :: "legacy_env \<Rightarrow> string \<Rightarrow> test_report" where
  "runTests L localPath =
     (let python_check =
            (if requirements_txt L then
               (let python_result =
                      result (runTestsInSandbox (python_docker L) localPath legacy_python_cmd
                                ''python:3.9-alpine'')
                in ([''--- PYTHON OUTPUT ---'' @ [CHR 0x0A] @ output python_result],
                    (if \<not> success python_result
                        \<or> (str_includes (output python_result) ''SyntaxError''
                            \<or> str_includes (output python_result) ''E999''
                            \<or> str_includes (output python_result) ''F401'')
                     then False else True)))
             else ([], True));
          outputs1 = fst python_check;
          passed1 = snd python_check;
          nodeDir =
            (if root_package_json L then Some ''.''
             else if frontend_package_json L then Some ''frontend'' else None)
      in case nodeDir of
           None \<Rightarrow> \<lparr>testOutput = join outputs1 [CHR 0x0A, CHR 0x0A], passed = passed1\<rparr>
         | Some dir \<Rightarrow>
             (let joined = join (node_commands (package_scripts L)) '' && '';
                  testCmd = (if dir \<noteq> ''.'' then ''cd '' @ dir @ '' && '' @ joined else joined);
                  node_result =
                    result (runTestsInSandbox (node_docker L) localPath testCmd ''node:18-alpine'')
              in \<lparr>testOutput =
                     join (outputs1 @ [''--- NODE.JS OUTPUT ---'' @ [CHR 0x0A] @ output node_result])
                       [CHR 0x0A, CHR 0x0A],
                   passed = (if \<not> success node_result then False else passed1)\<rparr>))"

section \<open>The healing loop (startOrchestrator, phase 3)\<close>

text \<open>
  The model starts where the loop starts: the repository is cloned, the branch exists, an
  engine was detected and \<open>issues_log.json\<close> holds no issue. The collaborators are
  functions of the iteration number and of what the code passes to them: \<open>engine.run\<close>
  (given the working tree), \<open>analyzeOutput\<close> (given the first 12000 characters of the
  test output) and the solver's surroundings.
\<close>

record oracles =
  engine_run :: "nat \<Rightarrow> (string \<rightharpoonup> fs_node) \<Rightarrow> sandbox_result"
  analyzeOutput :: "nat \<Rightarrow> string \<Rightarrow> issue list"
  solver_at :: "nat \<Rightarrow> solver_env"

text \<open>The awaited calls of the loop, each with the value of the loop counter \<open>i\<close>.\<close>

datatype call = RunTests nat sandbox_result | Analyze nat | Solve nat

record run_state =
  log_file :: "issue list"
  worktree :: "string \<rightharpoonup> fs_node"
  allFixes :: "applied_fix list"
  isSuccess :: bool
  iterations :: nat
  history :: "call list"

definition MAX_ITER :: nat where
  "MAX_ITER = 6"

definition initial_state :: "(string \<rightharpoonup> fs_node) \<Rightarrow> run_state" where
  "initial_state files =
     \<lparr>log_file = [], worktree = files, allFixes = [], isSuccess = False, iterations = 0,
      history = []\<rparr>"

text \<open>How one pass through the loop body ends: at a \<open>break\<close>, or at its end, from where
  the counter is incremented.\<close>

datatype 'a flow = Break 'a | Next 'a

definition loop_body :: "oracles \<Rightarrow> nat \<Rightarrow> run_state \<Rightarrow> run_state flow" where
  "loop_body orc i st =
     (let runResult = engine_run orc i (worktree st);
          st1 = st\<lparr>iterations := i, history := history st @ [RunTests i runResult]\<rparr>
      in if success runResult then Break (st1\<lparr>isSuccess := True\<rparr>)
         else
           let currentLog = log_file st1;
               discovered = analyzeOutput orc i (substring0 (output runResult) 12000);
               st2 = st1\<lparr>history := history st1 @ [Analyze i]\<rparr>
           in if nothing_found (scan_log currentLog discovered) then Break st2
              else
                let st3 = st2\<lparr>log_file := merge_issues currentLog discovered i\<rparr>
                in if i = MAX_ITER then Break st3
                   else
                     let openIssues = filter (\<lambda>iss. status iss = OPEN) (log_file st3);
                         solveResult = runSolver (solver_at orc i) openIssues (output runResult)
                                         (log_file st3) (worktree st3)
                     in Next (st3\<lparr>log_file := issues_log solveResult,
                                   worktree := tree solveResult,
                                   allFixes := allFixes st3 @ fixesApplied solveResult,
                                   history := history st3 @ [Solve i]\<rparr>))"

text \<open>\<open>for (let i = 1; i <= MAX_ITER; i++)\<close>, from the counter's current value.\<close>

function healing_loop :: "oracles \<Rightarrow> nat \<Rightarrow> run_state \<Rightarrow> run_state" where
  "healing_loop orc i st =
     (if MAX_ITER < i then st
      else case loop_body orc i st of
             Break st' \<Rightarrow> st'
           | Next st' \<Rightarrow> healing_loop orc (Suc i) st')"
  by pat_completeness auto
termination
  by (relation "measure (\<lambda>(orc, i, st). Suc MAX_ITER - i)") auto

declare healing_loop.simps [simp del]

text \<open>The loop counters at which the tests were run and at which the solver was run.\<close>

fun tests_run :: "call list \<Rightarrow> nat list" where
  "tests_run [] = []"
| "tests_run (RunTests i r # cs) = i # tests_run cs"
| "tests_run (Analyze i # cs) = tests_run cs"
| "tests_run (Solve i # cs) = tests_run cs"

fun solver_runs :: "call list \<Rightarrow> nat list" where
  "solver_runs [] = []"
| "solver_runs (RunTests i r # cs) = solver_runs cs"
| "solver_runs (Analyze i # cs) = solver_runs cs"
| "solver_runs (Solve i # cs) = i # solver_runs cs"

text \<open>The sandbox results in the order they were returned.\<close>

fun sandbox_results :: "call list \<Rightarrow> sandbox_result list" where
  "sandbox_results [] = []"
| "sandbox_results (RunTests i r # cs) = r # sandbox_results cs"
| "sandbox_results (Analyze i # cs) = sandbox_results cs"
| "sandbox_results (Solve i # cs) = sandbox_results cs"

section \<open>Commit and push (startOrchestrator, phase 4)\<close>

datatype run_status = PASSED | FAILED

text \<open>What git does: \<open>add\<close> and \<open>commit\<close> for the \<open>k\<close>-th fix, and the push.\<close>

record git_env =
  add_result :: "nat \<Rightarrow> unit attempt"
  commit_result :: "nat \<Rightarrow> unit attempt"
  push_result :: "unit attempt"

datatype git_call = GitAdd string | GitCommit string | GitPush string

datatype log_line =
    Committed string string | CommitSkipped string string | PushOk | PushFailed string

definition commit_message :: "issue \<Rightarrow> string" where
  "commit_message fx =
     ''[AI-AGENT] Fix '' @ type fx @ '' in '' @ file fx @ '': ''
       @ substring0 (description fx) 60"

record commits =
  committed :: "(issue \<times> string) list"
  git_calls :: "git_call list"
  log_lines :: "log_line list"

definition skipped_line :: "issue \<Rightarrow> string \<Rightarrow> log_line list" where
  "skipped_line fx e =
     (if \<not> str_includes e ''nothing to commit'' then [CommitSkipped (file fx) e] else [])"

definition commit_one :: "git_env \<Rightarrow> nat \<Rightarrow> issue \<Rightarrow> commits \<Rightarrow> commits" where
  "commit_one G k fx acc =
     (case add_result G k of
        Throws e \<Rightarrow>
          acc\<lparr>git_calls := git_calls acc @ [GitAdd (file fx)],
               log_lines := log_lines acc @ skipped_line fx e\<rparr>
      | Returns _ \<Rightarrow>
          (case commit_result G k of
             Throws e \<Rightarrow>
               acc\<lparr>git_calls := git_calls acc @ [GitAdd (file fx), GitCommit (commit_message fx)],
                    log_lines := log_lines acc @ skipped_line fx e\<rparr>
           | Returns _ \<Rightarrow>
               acc\<lparr>committed := committed acc @ [(fx, commit_message fx)],
                    git_calls := git_calls acc @ [GitAdd (file fx), GitCommit (commit_message fx)],
                    log_lines := log_lines acc @ [Committed (file fx) (type fx)]\<rparr>))"

fun commitFixes :: "git_env \<Rightarrow> nat \<Rightarrow> issue list \<Rightarrow> commits \<Rightarrow> commits" where
  "commitFixes G k [] acc = acc"
| "commitFixes G k (fx # rest) acc = commitFixes G (Suc k) rest (commit_one G k fx acc)"

record report =
  final_status :: run_status
  fixes_reported :: "(issue \<times> string) list"
  git_history :: "git_call list"
  output_log :: "log_line list"

definition finish_run :: "git_env \<Rightarrow> string \<Rightarrow> run_state \<Rightarrow> report" where
  "finish_run G branchName st =
     (if allFixes st \<noteq> [] \<or> isSuccess st then
        let fixedIssues = filter (\<lambda>iss. status iss = FIXED) (log_file st);
            made = commitFixes G 0 fixedIssues \<lparr>committed = [], git_calls = [], log_lines = []\<rparr>
        in \<lparr>final_status = (if isSuccess st then PASSED else FAILED),
            fixes_reported = committed made,
            git_history = git_calls made @ [GitPush branchName],
            output_log = log_lines made
              @ (case push_result G of Returns _ \<Rightarrow> [PushOk] | Throws e \<Rightarrow> [PushFailed e])\<rparr>
      else \<lparr>final_status = FAILED, fixes_reported = [], git_history = [], output_log = []\<rparr>)"

definition startOrchestrator ::
    "oracles \<Rightarrow> git_env \<Rightarrow> string \<Rightarrow> (string \<rightharpoonup> fs_node) \<Rightarrow> report" where
  "startOrchestrator orc G branchName files =
     finish_run G branchName (healing_loop orc 1 (initial_state files))"

text \<open>The commits attempted and the pushes attempted, read off the git calls.\<close>

fun added_files :: "git_call list \<Rightarrow> string list" where
  "added_files [] = []"
| "added_files (GitAdd f # cs) = f # added_files cs"
| "added_files (GitCommit m # cs) = added_files cs"
| "added_files (GitPush b # cs) = added_files cs"

fun commit_messages :: "git_call list \<Rightarrow> string list" where
  "commit_messages [] = []"
| "commit_messages (GitAdd f # cs) = commit_messages cs"
| "commit_messages (GitCommit m # cs) = m # commit_messages cs"
| "commit_messages (GitPush b # cs) = commit_messages cs"

fun pushes :: "git_call list \<Rightarrow> string list" where
  "pushes [] = []"
| "pushes (GitAdd f # cs) = pushes cs"
| "pushes (GitCommit m # cs) = pushes cs"
| "pushes (GitPush b # cs) = b # pushes cs"

section \<open>Evaluation of the key rendering\<close>

lemma show_nat_0: "show_nat 0 = ''0''"
  by (simp add: show_nat.simps digit_char_def)

lemma show_nat_5: "show_nat 5 = ''5''"
  by (simp add: show_nat.simps digit_char_def)

lemma show_nat_8: "show_nat 8 = ''8''"
  by (simp add: show_nat.simps digit_char_def)

section \<open>The scan over the discovered issues\<close>

lemma find_index_Some_iff:
  "find_index P xs = Some j \<longleftrightarrow> j < length xs \<and> P (xs ! j) \<and> (\<forall>k<j. \<not> P (xs ! k))"
proof (induction xs arbitrary: j)
  case Nil
  then show ?case by simp
next
  case (Cons x xs)
  show ?case
  proof (cases "P x")
    case True
    then show ?thesis by (cases j) auto
  next
    case False
    show ?thesis
    proof (cases j)
      case 0
      with False show ?thesis by auto
    next
      case (Suc m)
      have "(\<forall>k<Suc m. \<not> P ((x # xs) ! k)) \<longleftrightarrow> (\<forall>k<m. \<not> P (xs ! k))"
        using False by (auto simp: less_Suc_eq_0_disj)
      with False Suc Cons.IH [of m] show ?thesis by auto
    qed
  qed
qed

lemma find_index_None_iff: "find_index P xs = None \<longleftrightarrow> (\<forall>x\<in>set xs. \<not> P x)"
  by (induction xs) auto

lemma reopen_key [simp]: "issue_key (reopen e) = issue_key e"
  by (simp add: reopen_def issue_key_def)

lemma reopen_status [simp]: "status (reopen e) = OPEN"
  by (simp add: reopen_def)

lemma scan_step_length [simp]: "length (issues (scan_step a d st)) = length (issues st)"
  by (simp add: scan_step_def split: option.splits)

lemma scan_step_entry:
  "issues (scan_step a d st) ! j = issues st ! j \<or>
   (status (issues st ! j) = FIXED \<and> issues (scan_step a d st) ! j = reopen (issues st ! j)
    \<and> j \<in> set (reOpenedIssues (scan_step a d st)))"
  by (auto simp: scan_step_def existingFixed_def find_index_Some_iff nth_list_update
      split: option.splits)

lemma scan_step_reopened_mono:
  "set (reOpenedIssues st) \<subseteq> set (reOpenedIssues (scan_step a d st))"
  by (auto simp: scan_step_def split: option.splits)

lemma scan_discovered_length [simp]:
  "length (issues (scan_discovered a ds st)) = length (issues st)"
  by (induction ds arbitrary: st) auto

lemma scan_discovered_reopened_mono:
  "set (reOpenedIssues st) \<subseteq> set (reOpenedIssues (scan_discovered a ds st))"
proof (induction ds arbitrary: st)
  case Nil
  then show ?case by simp
next
  case (Cons d ds)
  show ?case using scan_step_reopened_mono [of st a d] Cons.IH [of "scan_step a d st"] by auto
qed

lemma scan_discovered_entry:
  "issues (scan_discovered a ds st) ! j = issues st ! j \<or>
   (status (issues st ! j) = FIXED \<and> issues (scan_discovered a ds st) ! j = reopen (issues st ! j)
    \<and> j \<in> set (reOpenedIssues (scan_discovered a ds st)))"
proof (induction ds arbitrary: st)
  case Nil
  then show ?case by simp
next
  case (Cons d ds)
  let ?s1 = "scan_step a d st"
  from scan_step_entry [of a d st j] show ?case
  proof
    assume same: "issues ?s1 ! j = issues st ! j"
    with Cons.IH [of ?s1] show ?thesis by auto
  next
    assume re: "status (issues st ! j) = FIXED \<and> issues ?s1 ! j = reopen (issues st ! j)
      \<and> j \<in> set (reOpenedIssues ?s1)"
    then have "status (issues ?s1 ! j) \<noteq> FIXED" by simp
    with Cons.IH [of ?s1] have "issues (scan_discovered a ds ?s1) ! j = issues ?s1 ! j" by auto
    moreover have "j \<in> set (reOpenedIssues (scan_discovered a ds ?s1))"
      using re scan_discovered_reopened_mono [of ?s1 a ds] by auto
    ultimately show ?thesis using re by simp
  qed
qed

lemma scan_step_keeps_first:
  assumes "existingFixed disc (issues st) = Some j"
    and "issues (scan_step a d st) ! j = issues st ! j"
  shows "existingFixed disc (issues (scan_step a d st)) = Some j"
proof -
  let ?P = "\<lambda>iss. issue_key iss \<in> set (match_keys disc) \<and> status iss = FIXED"
  from assms(1) have j: "j < length (issues st)" "?P (issues st ! j)"
    and first: "\<forall>k<j. \<not> ?P (issues st ! k)"
    by (auto simp: existingFixed_def find_index_Some_iff)
  have "\<not> ?P (issues (scan_step a d st) ! k)" if "k < j" for k
    using scan_step_entry [of a d st k] first that by auto
  with j assms(2) show ?thesis
    by (auto simp: existingFixed_def find_index_Some_iff)
qed

lemma scan_step_reopens:
  assumes "existingFixed d (issues st) = Some j"
  shows "issues (scan_step a d st) ! j = reopen (issues st ! j) \<and> j \<in> set (reOpenedIssues (scan_step a d st))"
proof -
  from assms have "j < length (issues st)"
    by (simp add: existingFixed_def find_index_Some_iff)
  with assms show ?thesis by (simp add: scan_step_def)
qed

lemma scan_discovered_reopens:
  assumes "disc \<in> set ds" and "existingFixed disc (issues st) = Some j"
  shows "issues (scan_discovered a ds st) ! j = reopen (issues st ! j)
    \<and> j \<in> set (reOpenedIssues (scan_discovered a ds st))"
  using assms
proof (induction ds arbitrary: st)
  case Nil
  then show ?case by simp
next
  case (Cons d ds)
  let ?s1 = "scan_step a d st"
  have fixed: "status (issues st ! j) = FIXED"
    using Cons.prems(2) by (auto simp: existingFixed_def find_index_Some_iff)
  have done_now: ?case
    if re: "issues ?s1 ! j = reopen (issues st ! j)" "j \<in> set (reOpenedIssues ?s1)"
  proof -
    have "status (issues ?s1 ! j) \<noteq> FIXED" using re by simp
    with scan_discovered_entry [of a ds ?s1 j]
    have "issues (scan_discovered a ds ?s1) ! j = issues ?s1 ! j" by auto
    moreover have "j \<in> set (reOpenedIssues (scan_discovered a ds ?s1))"
      using re scan_discovered_reopened_mono [of ?s1 a ds] by auto
    ultimately show ?thesis using re by simp
  qed
  show ?case
  proof (cases "issues ?s1 ! j = issues st ! j")
    case True
    then have keep: "existingFixed disc (issues ?s1) = Some j"
      using scan_step_keeps_first [OF Cons.prems(2)] by simp
    have "d \<noteq> disc"
    proof
      assume "d = disc"
      with scan_step_reopens [OF Cons.prems(2), of a] True
      have "issues st ! j = reopen (issues st ! j)" by simp
      then have "status (issues st ! j) = status (reopen (issues st ! j))" by simp
      with fixed show False by simp
    qed
    with Cons.prems(1) have "disc \<in> set ds" by simp
    from Cons.IH [OF this keep] True show ?thesis by simp
  next
    case False
    with scan_step_entry [of a d st j] done_now show ?thesis by auto
  qed
qed

lemma push_new_eq:
  "push_new E i new L =
     L @ map (\<lambda>iss. iss\<lparr>status := OPEN, discoveredAt := Some i\<rparr>)
           (filter (\<lambda>iss. issue_key iss \<notin> set E) new)"
  by (induction new arbitrary: L) auto

lemma merge_issues_nth:
  assumes "j < length currentLog"
  shows "merge_issues currentLog discovered i ! j = issues (scan_log currentLog discovered) ! j"
  using assms by (simp add: merge_issues_def Let_def push_new_eq nth_append scan_log_def)

lemma merge_issues_prefix:
  "take (length currentLog) (merge_issues currentLog discovered i) = issues (scan_log currentLog discovered)"
  by (simp add: merge_issues_def Let_def push_new_eq scan_log_def)

lemma scan_log_entry:
  "issues (scan_log L D) ! j = L ! j \<or>
   (status (L ! j) = FIXED \<and> issues (scan_log L D) ! j = reopen (L ! j)
    \<and> j \<in> set (reOpenedIssues (scan_log L D)))"
  using scan_discovered_entry [of "addressedKeys L" D "\<lparr>issues = L, newIssues = [], reOpenedIssues = []\<rparr>" j]
  by (simp add: scan_log_def)

lemma scan_log_length [simp]: "length (issues (scan_log L D)) = length L"
  by (simp add: scan_log_def)

lemma scan_log_keys [simp]: "map issue_key (issues (scan_log L D)) = map issue_key L"
proof (rule nth_equalityI)
  show "length (map issue_key (issues (scan_log L D))) = length (map issue_key L)" by simp
next
  fix j assume "j < length (map issue_key (issues (scan_log L D)))"
  then have "j < length L" by simp
  with scan_log_entry [of L D j] show "map issue_key (issues (scan_log L D)) ! j = map issue_key L ! j"
    by auto
qed

lemma merge_issues_eq:
  "merge_issues L D i =
     issues (scan_log L D) @
       map (\<lambda>iss. iss\<lparr>status := OPEN, discoveredAt := Some i\<rparr>)
         (filter (\<lambda>iss. issue_key iss \<notin> set (map issue_key L)) (newIssues (scan_log L D)))"
proof (cases "nothing_found (scan_log L D)")
  case True
  then show ?thesis by (simp add: merge_issues_def nothing_found_def)
next
  case False
  then show ?thesis by (simp add: merge_issues_def Let_def push_new_eq)
qed

lemma appended_key [simp]:
  "issue_key (iss\<lparr>status := OPEN, discoveredAt := Some i\<rparr>) = issue_key iss"
  by (simp add: issue_key_def)

text \<open>
  What a merge does reopen. When an issue of the discovered batch matches, by its key or by
  its line-0 key, a \<open>FIXED\<close> entry of the log as read, the first such entry in log order
  (the one \<open>find\<close> returns on the log as read) is \<open>OPEN\<close> after the merge, its description
  is the old one with the regression note appended once, its key is unchanged, and it is
  among the reopened entries the merge reports.
\<close>

lemma reopen_first_fixed_match:
  assumes "disc \<in> set discovered" and "existingFixed disc currentLog = Some j"
  shows "status (merge_issues currentLog discovered i ! j) = OPEN
    \<and> description (merge_issues currentLog discovered i ! j)
        = description (currentLog ! j) @ regression_note
    \<and> issue_key (merge_issues currentLog discovered i ! j) = issue_key (currentLog ! j)
    \<and> merge_issues currentLog discovered i ! j \<in> set (reopened_entries currentLog discovered i)"
proof -
  let ?st0 = "\<lparr>issues = currentLog, newIssues = [], reOpenedIssues = []\<rparr>"
  have j: "j < length currentLog"
    using assms(2) by (simp add: existingFixed_def find_index_Some_iff)
  have "existingFixed disc (issues ?st0) = Some j" using assms(2) by simp
  from scan_discovered_reopens [OF assms(1) this, of "addressedKeys currentLog"]
  have re: "issues (scan_log currentLog discovered) ! j = reopen (currentLog ! j)"
    and mem: "j \<in> set (reOpenedIssues (scan_log currentLog discovered))"
    by (simp_all add: scan_log_def)
  have nth: "merge_issues currentLog discovered i ! j = reopen (currentLog ! j)"
    using merge_issues_nth [OF j] re by simp
  have "merge_issues currentLog discovered i ! j \<in> set (reopened_entries currentLog discovered i)"
    using mem by (auto simp: reopened_entries_def)
  with nth show ?thesis by (simp add: reopen_def issue_key_def)
qed

subsection \<open>Keys of the log stay unique when the batch has no repeated key\<close>

lemma scan_new_distinct:
  "distinct (map issue_key (newIssues st @ ds)) \<Longrightarrow>
   distinct (map issue_key (newIssues (scan_discovered a ds st)))"
proof (induction ds arbitrary: st)
  case Nil
  then show ?case by simp
next
  case (Cons d ds)
  have "distinct (map issue_key (newIssues (scan_step a d st) @ ds))"
    using Cons.prems by (auto simp: scan_step_def split: option.splits)
  from Cons.IH [OF this] show ?case by simp
qed

lemma merge_issues_distinct_keys:
  assumes "distinct (map issue_key L)" and "distinct (map issue_key D)"
  shows "distinct (map issue_key (merge_issues L D i))"
proof -
  have "distinct (map issue_key (newIssues (scan_log L D)))"
    using scan_new_distinct [of "\<lparr>issues = L, newIssues = [], reOpenedIssues = []\<rparr>" D "addressedKeys L"] assms(2)
    by (simp add: scan_log_def)
  then have "distinct (map issue_key (filter (\<lambda>iss. issue_key iss \<notin> set (map issue_key L)) (newIssues (scan_log L D))))"
    by (simp add: distinct_map_filter)
  with assms(1) show ?thesis
    by (auto simp: merge_issues_eq comp_def) (metis imageI)
qed

lemma merge_issues_open_key_idempotent:
  assumes "e \<in> set L" "status e = OPEN" "issue_key e = issue_key d" "existingFixed d L = None"
  shows "merge_issues L [d] i = L"
proof -
  have "issue_key e \<in> issue_key ` set L" using assms(1) by (rule imageI)
  then have "issue_key d \<in> set (map issue_key L)" using assms(3) by simp
  then show ?thesis using assms(4)
    by (auto simp: merge_issues_def scan_log_def scan_step_def Let_def nothing_found_def)
qed

subsection \<open>Rediscovered issues that are skipped\<close>

lemma scan_discovered_append:
  "scan_discovered a (xs @ ys) st = scan_discovered a ys (scan_discovered a xs st)"
  by (induction xs arbitrary: st) auto

lemma existingFixed_None_scan:
  assumes "existingFixed disc (issues st) = None"
  shows "existingFixed disc (issues (scan_discovered a ds st)) = None"
proof -
  let ?P = "\<lambda>iss. issue_key iss \<in> set (match_keys disc) \<and> status iss = FIXED"
  have none: "\<forall>x\<in>set (issues st). \<not> ?P x"
    using assms by (simp add: existingFixed_def find_index_None_iff)
  have "\<not> ?P x" if "x \<in> set (issues (scan_discovered a ds st))" for x
  proof -
    from that obtain j where j: "j < length (issues st)"
      and x: "x = issues (scan_discovered a ds st) ! j"
      by (auto simp: in_set_conv_nth)
    from j none have old: "\<not> ?P (issues st ! j)" by simp
    from scan_discovered_entry [of a ds st j] x old show ?thesis by auto
  qed
  then show ?thesis by (simp add: existingFixed_def find_index_None_iff)
qed

lemma scan_new_not_addressed:
  "\<forall>x\<in>set (newIssues st). issue_key x \<notin> set a \<Longrightarrow>
   \<forall>x\<in>set (newIssues (scan_discovered a ds st)). issue_key x \<notin> set a"
proof (induction ds arbitrary: st)
  case Nil
  then show ?case by simp
next
  case (Cons d ds)
  have "\<forall>x\<in>set (newIssues (scan_step a d st)). issue_key x \<notin> set a"
    using Cons.prems by (auto simp: scan_step_def split: option.splits)
  from Cons.IH [OF this] show ?case by simp
qed

lemma scan_log_skip:
  assumes "issue_key disc \<in> set (addressedKeys L)" and "existingFixed disc L = None"
  shows "scan_log L (before @ disc # after) = scan_log L (before @ after)"
proof -
  let ?a = "addressedKeys L"
  let ?s1 = "scan_discovered ?a before \<lparr>issues = L, newIssues = [], reOpenedIssues = []\<rparr>"
  have "existingFixed disc (issues ?s1) = None"
    using existingFixed_None_scan [of disc "\<lparr>issues = L, newIssues = [], reOpenedIssues = []\<rparr>" ?a before] assms(2)
    by simp
  with assms(1) have "scan_step ?a disc ?s1 = ?s1" by (simp add: scan_step_def)
  then show ?thesis by (simp add: scan_log_def scan_discovered_append)
qed

text \<open>
  Claim C10, as the code has it. Let a discovered issue of the batch have the key of a log
  entry whose status is \<open>FAILED_FILE_NOT_FOUND\<close> or \<open>FAILED_GENERATION\<close>. Then the merge
  leaves every entry that is not \<open>FIXED\<close> (so every \<open>FAILED_*\<close> entry) as it was, no new
  issue has that key, and no appended entry has that key. If no \<open>FIXED\<close> entry of the log
  as read matches the issue's key or line-0 key, the issue has no effect at all: the scan
  and the merged log are those of the batch without it. If some \<open>FIXED\<close> entry of the log
  as read matches the issue's key or line-0 key, the first such entry is \<open>OPEN\<close> after
  the merge, with the regression note appended to its description, and is among the
  reopened entries the merge reports.
\<close>

theorem failed_issue_rediscovered:
  assumes "e \<in> set currentLog"
    and "status e = FAILED_FILE_NOT_FOUND \<or> status e = FAILED_GENERATION"
    and "issue_key disc = issue_key e"
  shows "(\<forall>j<length currentLog. status (currentLog ! j) \<noteq> FIXED \<longrightarrow>
            merge_issues currentLog (before @ disc # after) i ! j = currentLog ! j)
    \<and> (\<forall>x\<in>set (newIssues (scan_log currentLog (before @ disc # after))).
            issue_key x \<noteq> issue_key disc)
    \<and> (\<forall>x\<in>set (drop (length currentLog) (merge_issues currentLog (before @ disc # after) i)).
            issue_key x \<noteq> issue_key disc)
    \<and> (existingFixed disc currentLog = None \<longrightarrow>
          scan_log currentLog (before @ disc # after) = scan_log currentLog (before @ after)
          \<and> merge_issues currentLog (before @ disc # after) i
              = merge_issues currentLog (before @ after) i)
    \<and> (\<forall>j. existingFixed disc currentLog = Some j \<longrightarrow>
          status (merge_issues currentLog (before @ disc # after) i ! j) = OPEN
          \<and> description (merge_issues currentLog (before @ disc # after) i ! j)
              = description (currentLog ! j) @ regression_note
          \<and> merge_issues currentLog (before @ disc # after) i ! j
              \<in> set (reopened_entries currentLog (before @ disc # after) i))"
proof -
  let ?D = "before @ disc # after"
  have addressed: "issue_key disc \<in> set (addressedKeys currentLog)"
  proof -
    from assms(1,2) have "e \<in> set (filter (\<lambda>iss. status iss \<noteq> OPEN) currentLog)" by auto
    then have "issue_key e \<in> issue_key ` set (filter (\<lambda>iss. status iss \<noteq> OPEN) currentLog)"
      by (rule imageI)
    with assms(3) show ?thesis by (simp add: addressedKeys_def)
  qed
  have inlog: "issue_key disc \<in> set (map issue_key currentLog)"
  proof -
    from assms(1) have "issue_key e \<in> issue_key ` set currentLog" by (rule imageI)
    with assms(3) show ?thesis by simp
  qed
  have p1: "\<forall>j<length currentLog. status (currentLog ! j) \<noteq> FIXED \<longrightarrow>
            merge_issues currentLog ?D i ! j = currentLog ! j"
  proof (intro allI impI)
    fix j assume j: "j < length currentLog" and nf: "status (currentLog ! j) \<noteq> FIXED"
    from scan_log_entry [of currentLog ?D j] nf
    have "issues (scan_log currentLog ?D) ! j = currentLog ! j" by auto
    with merge_issues_nth [OF j] show "merge_issues currentLog ?D i ! j = currentLog ! j" by simp
  qed
  have p2: "\<forall>x\<in>set (newIssues (scan_log currentLog ?D)). issue_key x \<noteq> issue_key disc"
  proof -
    have "\<forall>x\<in>set (newIssues (scan_log currentLog ?D)). issue_key x \<notin> set (addressedKeys currentLog)"
      using scan_new_not_addressed [of "\<lparr>issues = currentLog, newIssues = [], reOpenedIssues = []\<rparr>" "addressedKeys currentLog" ?D]
      by (simp add: scan_log_def)
    with addressed show ?thesis by metis
  qed
  have p3: "\<forall>x\<in>set (drop (length currentLog) (merge_issues currentLog ?D i)).
            issue_key x \<noteq> issue_key disc"
  proof -
    have "drop (length currentLog) (merge_issues currentLog ?D i) =
       map (\<lambda>iss. iss\<lparr>status := OPEN, discoveredAt := Some i\<rparr>)
         (filter (\<lambda>iss. issue_key iss \<notin> set (map issue_key currentLog)) (newIssues (scan_log currentLog ?D)))"
      by (simp add: merge_issues_eq)
    with inlog show ?thesis by auto
  qed
  have p4: "existingFixed disc currentLog = None \<longrightarrow>
          scan_log currentLog ?D = scan_log currentLog (before @ after)
          \<and> merge_issues currentLog ?D i = merge_issues currentLog (before @ after) i"
  proof
    assume "existingFixed disc currentLog = None"
    from scan_log_skip [OF addressed this]
    have "scan_log currentLog ?D = scan_log currentLog (before @ after)" .
    then show "scan_log currentLog ?D = scan_log currentLog (before @ after)
          \<and> merge_issues currentLog ?D i = merge_issues currentLog (before @ after) i"
      by (simp add: merge_issues_def)
  qed
  have p5: "\<forall>j. existingFixed disc currentLog = Some j \<longrightarrow>
          status (merge_issues currentLog ?D i ! j) = OPEN
          \<and> description (merge_issues currentLog ?D i ! j)
              = description (currentLog ! j) @ regression_note
          \<and> merge_issues currentLog ?D i ! j \<in> set (reopened_entries currentLog ?D i)"
  proof (intro allI impI)
    fix j assume fx: "existingFixed disc currentLog = Some j"
    have mem: "disc \<in> set ?D" by simp
    from reopen_first_fixed_match [OF mem fx, of i]
    show "status (merge_issues currentLog ?D i ! j) = OPEN
          \<and> description (merge_issues currentLog ?D i ! j)
              = description (currentLog ! j) @ regression_note
          \<and> merge_issues currentLog ?D i ! j \<in> set (reopened_entries currentLog ?D i)"
      by blast
  qed
  from p1 p2 p3 p4 p5 show ?thesis by blast
qed

subsection \<open>Time stamps of resolved issues\<close>

lemma merge_issues_elems:
  assumes "x \<in> set (merge_issues L D i)"
  shows "x \<in> set L \<or> status x = OPEN"
proof -
  from assms have "x \<in> set (issues (scan_log L D)) \<or> status x = OPEN"
    by (auto simp: merge_issues_eq)
  then show ?thesis
  proof
    assume "x \<in> set (issues (scan_log L D))"
    then obtain j where j: "j < length L" and x: "x = issues (scan_log L D) ! j"
      by (auto simp: in_set_conv_nth)
    from scan_log_entry [of L D j] x j show ?thesis by auto
  next
    assume "status x = OPEN" then show ?thesis ..
  qed
qed

lemma updateIssueStatus_elems:
  assumes "x \<in> set (updateIssueStatus f t l s now L)"
  shows "x \<in> set L \<or> (status x = s \<and> fixedAt x = Some now)"
proof (cases "find_index (\<lambda>i. file i = f \<and> type i = t \<and> line i = l) L")
  case None
  with assms show ?thesis by (simp add: updateIssueStatus_def)
next
  case (Some j)
  with assms have "x \<in> set (L[j := (L ! j)\<lparr>status := s, fixedAt := Some now\<rparr>])"
    by (simp add: updateIssueStatus_def)
  then have "x \<in> insert ((L ! j)\<lparr>status := s, fixedAt := Some now\<rparr>) (set L)"
    using set_update_subset_insert by fastforce
  then show ?thesis by auto
qed




subsection \<open>Instances\<close>

lemmas ledger_eval =
  merge_issues_def scan_log_def scan_step_def existingFixed_def match_keys_def issue_key_def
  fuzzy_key_def addressedKeys_def nothing_found_def reopen_def reopened_entries_def
  regression_note_def updateIssueStatus_def run_ops_def Let_def
  show_nat_0 show_nat_5 show_nat_8

text \<open>
  Claim C2 (no two entries of the ledger share a key, also when one discovered batch
  repeats a key) fails on the code: \<open>existingKeys\<close> is built before the loop of step E and
  never extended, so two discovered issues with one key that the log does not hold are
  both appended. On the empty log, a batch that reports \<open>src/a.py::SYNTAX::8\<close> twice
  leaves two \<open>OPEN\<close> entries with that key.
\<close>

theorem merge_duplicate_keys_in_batch:
  "merge_issues []
     [\<lparr>file = ''src/a.py'', type = ''SYNTAX'', line = 8, description = ''missing colon'',
        status = OPEN, discoveredAt = None, fixedAt = None\<rparr>,
      \<lparr>file = ''src/a.py'', type = ''SYNTAX'', line = 8, description = ''expected :'',
        status = OPEN, discoveredAt = None, fixedAt = None\<rparr>] 1
   = [\<lparr>file = ''src/a.py'', type = ''SYNTAX'', line = 8, description = ''missing colon'',
        status = OPEN, discoveredAt = Some 1, fixedAt = None\<rparr>,
      \<lparr>file = ''src/a.py'', type = ''SYNTAX'', line = 8, description = ''expected :'',
        status = OPEN, discoveredAt = Some 1, fixedAt = None\<rparr>]
   \<and> \<not> distinct (map issue_key (merge_issues []
     [\<lparr>file = ''src/a.py'', type = ''SYNTAX'', line = 8, description = ''missing colon'',
        status = OPEN, discoveredAt = None, fixedAt = None\<rparr>,
      \<lparr>file = ''src/a.py'', type = ''SYNTAX'', line = 8, description = ''expected :'',
        status = OPEN, discoveredAt = None, fixedAt = None\<rparr>] 1))"
  by (simp add: ledger_eval)



text \<open>
  Claim C10 as stated fails: with a \<open>FIXED\<close> line-0 entry of the same file and type in the
  log, the rediscovered issue whose key is the key of a \<open>FAILED_GENERATION\<close> entry reopens
  the line-0 entry, so it is counted as reopened.
\<close>

theorem failed_issue_counted_reopened_counterexample:
  "issue_key \<lparr>file = ''a.py'', type = ''LOGIC'', line = 5, description = ''again'', status = OPEN,
       discoveredAt = None, fixedAt = None\<rparr>
     = issue_key \<lparr>file = ''a.py'', type = ''LOGIC'', line = 5, description = ''d5'',
         status = FAILED_GENERATION, discoveredAt = Some 1, fixedAt = Some ''t2''\<rparr>
   \<and> reOpenedIssues (scan_log
       [\<lparr>file = ''a.py'', type = ''LOGIC'', line = 0, description = ''d0'', status = FIXED,
          discoveredAt = Some 1, fixedAt = Some ''t1''\<rparr>,
        \<lparr>file = ''a.py'', type = ''LOGIC'', line = 5, description = ''d5'',
          status = FAILED_GENERATION, discoveredAt = Some 1, fixedAt = Some ''t2''\<rparr>]
       [\<lparr>file = ''a.py'', type = ''LOGIC'', line = 5, description = ''again'', status = OPEN,
          discoveredAt = None, fixedAt = None\<rparr>]) = [0]"
  by (simp add: ledger_eval)

text \<open>
  Two instances. The log holds one \<open>FAILED_GENERATION\<close> entry and its key is discovered
  again: the merge is that of the empty batch and the entry is as it was. The log holds a
  \<open>FIXED\<close> line-0 entry before that entry: the line-0 entry is \<open>OPEN\<close> after the merge,
  with the note, and the \<open>FAILED_GENERATION\<close> entry is as it was.
\<close>

theorem failed_issue_rediscovered_witness:
  "merge_issues
       [\<lparr>file = ''a.py'', type = ''LOGIC'', line = 5, description = ''d5'',
          status = FAILED_GENERATION, discoveredAt = Some 1, fixedAt = Some ''t2''\<rparr>]
       ([] @ \<lparr>file = ''a.py'', type = ''LOGIC'', line = 5, description = ''again'', status = OPEN,
          discoveredAt = None, fixedAt = None\<rparr> # []) 2
     = merge_issues
       [\<lparr>file = ''a.py'', type = ''LOGIC'', line = 5, description = ''d5'',
          status = FAILED_GENERATION, discoveredAt = Some 1, fixedAt = Some ''t2''\<rparr>] ([] @ []) 2
   \<and> merge_issues
       [\<lparr>file = ''a.py'', type = ''LOGIC'', line = 5, description = ''d5'',
          status = FAILED_GENERATION, discoveredAt = Some 1, fixedAt = Some ''t2''\<rparr>]
       ([] @ \<lparr>file = ''a.py'', type = ''LOGIC'', line = 5, description = ''again'', status = OPEN,
          discoveredAt = None, fixedAt = None\<rparr> # []) 2 ! 0
     = \<lparr>file = ''a.py'', type = ''LOGIC'', line = 5, description = ''d5'',
          status = FAILED_GENERATION, discoveredAt = Some 1, fixedAt = Some ''t2''\<rparr>
   \<and> status (merge_issues
       [\<lparr>file = ''a.py'', type = ''LOGIC'', line = 0, description = ''d0'', status = FIXED,
          discoveredAt = Some 1, fixedAt = Some ''t1''\<rparr>,
        \<lparr>file = ''a.py'', type = ''LOGIC'', line = 5, description = ''d5'',
          status = FAILED_GENERATION, discoveredAt = Some 1, fixedAt = Some ''t2''\<rparr>]
       ([] @ \<lparr>file = ''a.py'', type = ''LOGIC'', line = 5, description = ''again'', status = OPEN,
          discoveredAt = None, fixedAt = None\<rparr> # []) 2 ! 0) = OPEN
   \<and> description (merge_issues
       [\<lparr>file = ''a.py'', type = ''LOGIC'', line = 0, description = ''d0'', status = FIXED,
          discoveredAt = Some 1, fixedAt = Some ''t1''\<rparr>,
        \<lparr>file = ''a.py'', type = ''LOGIC'', line = 5, description = ''d5'',
          status = FAILED_GENERATION, discoveredAt = Some 1, fixedAt = Some ''t2''\<rparr>]
       ([] @ \<lparr>file = ''a.py'', type = ''LOGIC'', line = 5, description = ''again'', status = OPEN,
          discoveredAt = None, fixedAt = None\<rparr> # []) 2 ! 0)
     = ''d0'' @ regression_note
   \<and> merge_issues
       [\<lparr>file = ''a.py'', type = ''LOGIC'', line = 0, description = ''d0'', status = FIXED,
          discoveredAt = Some 1, fixedAt = Some ''t1''\<rparr>,
        \<lparr>file = ''a.py'', type = ''LOGIC'', line = 5, description = ''d5'',
          status = FAILED_GENERATION, discoveredAt = Some 1, fixedAt = Some ''t2''\<rparr>]
       ([] @ \<lparr>file = ''a.py'', type = ''LOGIC'', line = 5, description = ''again'', status = OPEN,
          discoveredAt = None, fixedAt = None\<rparr> # []) 2 ! 1
     = \<lparr>file = ''a.py'', type = ''LOGIC'', line = 5, description = ''d5'',
          status = FAILED_GENERATION, discoveredAt = Some 1, fixedAt = Some ''t2''\<rparr>"
proof -
  let ?e = "\<lparr>file = ''a.py'', type = ''LOGIC'', line = 5, description = ''d5'',
          status = FAILED_GENERATION, discoveredAt = Some 1, fixedAt = Some ''t2''\<rparr>"
  let ?z = "\<lparr>file = ''a.py'', type = ''LOGIC'', line = 0, description = ''d0'', status = FIXED,
          discoveredAt = Some 1, fixedAt = Some ''t1''\<rparr>"
  let ?d = "\<lparr>file = ''a.py'', type = ''LOGIC'', line = 5, description = ''again'', status = OPEN,
          discoveredAt = None, fixedAt = None\<rparr>"
  have h2: "status ?e = FAILED_FILE_NOT_FOUND \<or> status ?e = FAILED_GENERATION" by simp
  have h3: "issue_key ?d = issue_key ?e" by (simp add: issue_key_def)
  have a1: "?e \<in> set [?e]" by simp
  have a4: "existingFixed ?d [?e] = None" by (simp add: ledger_eval)
  have a5: "0 < length [?e] \<and> status ([?e] ! 0) \<noteq> FIXED" by simp
  from failed_issue_rediscovered [OF a1 h2 h3, of "[]" "[]" 2] a4 a5
  have first: "merge_issues [?e] ([] @ ?d # []) 2 = merge_issues [?e] ([] @ []) 2
      \<and> merge_issues [?e] ([] @ ?d # []) 2 ! 0 = ?e"
    by auto
  have b1: "?e \<in> set [?z, ?e]" by simp
  have b4: "existingFixed ?d [?z, ?e] = Some 0" by (simp add: ledger_eval)
  have b5: "1 < length [?z, ?e] \<and> status ([?z, ?e] ! 1) \<noteq> FIXED" by simp
  from failed_issue_rediscovered [OF b1 h2 h3, of "[]" "[]" 2] b4 b5
  have second: "status (merge_issues [?z, ?e] ([] @ ?d # []) 2 ! 0) = OPEN
      \<and> description (merge_issues [?z, ?e] ([] @ ?d # []) 2 ! 0) = ''d0'' @ regression_note
      \<and> merge_issues [?z, ?e] ([] @ ?d # []) 2 ! 1 = ?e"
    by auto
  from first second show ?thesis by blast
qed

section \<open>The sandbox: results and teardown\<close>

lemmas sandbox_eval =
  runTestsInSandbox_def sandbox_try_def sandbox_catch_def sandbox_finally_def

lemma result_runTestsInSandbox:
  "result (runTestsInSandbox D localPath testCmd imageName) =
     fst (sandbox_catch (snd (snd (sandbox_try D localPath testCmd imageName))))"
  by (simp add: runTestsInSandbox_def split: prod.splits)

lemma sandbox_try_ignores_teardown:
  "sandbox_try (D\<lparr>container_stop := s, container_remove := r\<rparr>) localPath testCmd imageName
     = sandbox_try D localPath testCmd imageName"
  by (simp add: sandbox_try_def split: attempt.splits)

lemmas sandbox_result_eval = result_runTestsInSandbox sandbox_try_def sandbox_catch_def

lemma sandbox_success_iff:
  "success (result (runTestsInSandbox D localPath testCmd imageName)) =
      (createContainer D = Returns () \<and> container_start D = Returns ()
       \<and> container_putArchive D = Returns () \<and> container_exec D = Returns ()
       \<and> exec_start D = Returns () \<and> (\<exists>out. stream_end D = Returns out)
       \<and> exec_inspect D = Returns 0)"
  by (auto simp: sandbox_result_eval split: attempt.splits)

text \<open>
  Claim C6. The result of \<open>runTestsInSandbox\<close> has \<open>success = true\<close> exactly when every
  step returned and the exit code read by \<open>exec.inspect\<close> is 0; when all steps return, the
  result is the captured output with \<open>success = (ExitCode === 0)\<close>; and when a step of the
  \<open>try\<close> block throws (creating or starting the container, the file transfer, creating
  or starting the exec, the stream, or reading the exit code), the call returns
  \<open>{success: false, output: "Sandbox execution failed: " + message}\<close>.
\<close>

theorem sandbox_result_from_exit_code:
  "(success (result (runTestsInSandbox D localPath testCmd imageName)) =
      (createContainer D = Returns () \<and> container_start D = Returns ()
       \<and> container_putArchive D = Returns () \<and> container_exec D = Returns ()
       \<and> exec_start D = Returns () \<and> (\<exists>out. stream_end D = Returns out)
       \<and> exec_inspect D = Returns 0))
   \<and> (\<forall>out exitCode.
        createContainer D = Returns () \<and> container_start D = Returns ()
        \<and> container_putArchive D = Returns () \<and> container_exec D = Returns ()
        \<and> exec_start D = Returns () \<and> stream_end D = Returns out
        \<and> exec_inspect D = Returns exitCode \<longrightarrow>
        result (runTestsInSandbox D localPath testCmd imageName)
          = \<lparr>success = (exitCode = 0), output = out\<rparr>)
   \<and> (\<forall>e.
        createContainer D = Throws e
        \<or> createContainer D = Returns () \<and> container_start D = Throws e
        \<or> createContainer D = Returns () \<and> container_start D = Returns ()
           \<and> container_putArchive D = Throws e
        \<or> createContainer D = Returns () \<and> container_start D = Returns ()
           \<and> container_putArchive D = Returns () \<and> container_exec D = Throws e
        \<or> createContainer D = Returns () \<and> container_start D = Returns ()
           \<and> container_putArchive D = Returns () \<and> container_exec D = Returns ()
           \<and> exec_start D = Throws e
        \<or> createContainer D = Returns () \<and> container_start D = Returns ()
           \<and> container_putArchive D = Returns () \<and> container_exec D = Returns ()
           \<and> exec_start D = Returns () \<and> stream_end D = Throws e
        \<or> createContainer D = Returns () \<and> container_start D = Returns ()
           \<and> container_putArchive D = Returns () \<and> container_exec D = Returns ()
           \<and> exec_start D = Returns () \<and> (\<exists>out. stream_end D = Returns out)
           \<and> exec_inspect D = Throws e \<longrightarrow>
        result (runTestsInSandbox D localPath testCmd imageName)
          = \<lparr>success = False, output = ''Sandbox execution failed: '' @ e\<rparr>)"
proof (intro conjI allI impI)
  show "success (result (runTestsInSandbox D localPath testCmd imageName)) =
      (createContainer D = Returns () \<and> container_start D = Returns ()
       \<and> container_putArchive D = Returns () \<and> container_exec D = Returns ()
       \<and> exec_start D = Returns () \<and> (\<exists>out. stream_end D = Returns out)
       \<and> exec_inspect D = Returns 0)"
    by (rule sandbox_success_iff)
next
  fix out exitCode
  assume "createContainer D = Returns () \<and> container_start D = Returns ()
        \<and> container_putArchive D = Returns () \<and> container_exec D = Returns ()
        \<and> exec_start D = Returns () \<and> stream_end D = Returns out
        \<and> exec_inspect D = Returns exitCode"
  then show "result (runTestsInSandbox D localPath testCmd imageName)
          = \<lparr>success = (exitCode = 0), output = out\<rparr>"
    by (simp add: sandbox_result_eval)
next
  fix e
  assume "createContainer D = Throws e
        \<or> createContainer D = Returns () \<and> container_start D = Throws e
        \<or> createContainer D = Returns () \<and> container_start D = Returns ()
           \<and> container_putArchive D = Throws e
        \<or> createContainer D = Returns () \<and> container_start D = Returns ()
           \<and> container_putArchive D = Returns () \<and> container_exec D = Throws e
        \<or> createContainer D = Returns () \<and> container_start D = Returns ()
           \<and> container_putArchive D = Returns () \<and> container_exec D = Returns ()
           \<and> exec_start D = Throws e
        \<or> createContainer D = Returns () \<and> container_start D = Returns ()
           \<and> container_putArchive D = Returns () \<and> container_exec D = Returns ()
           \<and> exec_start D = Returns () \<and> stream_end D = Throws e
        \<or> createContainer D = Returns () \<and> container_start D = Returns ()
           \<and> container_putArchive D = Returns () \<and> container_exec D = Returns ()
           \<and> exec_start D = Returns () \<and> (\<exists>out. stream_end D = Returns out)
           \<and> exec_inspect D = Throws e"
  then show "result (runTestsInSandbox D localPath testCmd imageName)
          = \<lparr>success = False, output = ''Sandbox execution failed: '' @ e\<rparr>"
    by (elim disjE conjE exE) (simp_all add: sandbox_result_eval)
qed

text \<open>
  What the \<open>finally\<close> block does. In a call that created the container, \<open>stop\<close> is invoked
  exactly once, after every call of the \<open>try\<close> block, on every exit path; \<open>remove\<close> is
  invoked exactly once when \<open>stop\<close> returned and not at all when \<open>stop\<close> threw (the two
  share one \<open>try\<close>); the result returned does not depend on what \<open>stop\<close> and \<open>remove\<close>
  do; and an error thrown by either is logged. In a call that did not create the
  container neither is invoked.
\<close>

lemma teardown_once:
  "(createContainer D = Returns () \<longrightarrow>
      count_list (api_calls (runTestsInSandbox D localPath testCmd imageName)) Stop = 1
      \<and> count_list (api_calls (runTestsInSandbox D localPath testCmd imageName)) Remove
          = (if container_stop D = Returns () then 1 else 0)
      \<and> (\<exists>body. api_calls (runTestsInSandbox D localPath testCmd imageName)
            = body @ (if container_stop D = Returns () then [Stop, Remove] else [Stop])
            \<and> Stop \<notin> set body \<and> Remove \<notin> set body)
      \<and> result (runTestsInSandbox (D\<lparr>container_stop := s, container_remove := r\<rparr>)
                  localPath testCmd imageName)
          = result (runTestsInSandbox D localPath testCmd imageName)
      \<and> (\<forall>e. container_stop D = Throws e
               \<or> container_stop D = Returns () \<and> container_remove D = Throws e \<longrightarrow>
             CleanupError e \<in> set (console_errors (runTestsInSandbox D localPath testCmd imageName))))
   \<and> (\<forall>e. createContainer D = Throws e \<longrightarrow>
         Stop \<notin> set (api_calls (runTestsInSandbox D localPath testCmd imageName))
         \<and> Remove \<notin> set (api_calls (runTestsInSandbox D localPath testCmd imageName)))"
proof (intro conjI allI impI)
  assume c: "createContainer D = Returns ()"
  show "count_list (api_calls (runTestsInSandbox D localPath testCmd imageName)) Stop = 1"
    using c by (simp add: sandbox_eval split: attempt.splits)
  show "count_list (api_calls (runTestsInSandbox D localPath testCmd imageName)) Remove
          = (if container_stop D = Returns () then 1 else 0)"
    using c by (simp add: sandbox_eval split: attempt.splits)
  show "\<exists>body. api_calls (runTestsInSandbox D localPath testCmd imageName)
            = body @ (if container_stop D = Returns () then [Stop, Remove] else [Stop])
            \<and> Stop \<notin> set body \<and> Remove \<notin> set body"
    using c by (simp add: sandbox_eval split: attempt.splits)
  show "result (runTestsInSandbox (D\<lparr>container_stop := s, container_remove := r\<rparr>)
                  localPath testCmd imageName)
          = result (runTestsInSandbox D localPath testCmd imageName)"
    by (simp add: result_runTestsInSandbox sandbox_try_ignores_teardown)
next
  fix e
  assume c: "createContainer D = Returns ()"
    and "container_stop D = Throws e
               \<or> container_stop D = Returns () \<and> container_remove D = Throws e"
  then show "CleanupError e \<in> set (console_errors (runTestsInSandbox D localPath testCmd imageName))"
    by (auto simp: sandbox_eval split: attempt.splits)
next
  fix e
  assume c: "createContainer D = Throws e"
  then show "Stop \<notin> set (api_calls (runTestsInSandbox D localPath testCmd imageName))"
    and "Remove \<notin> set (api_calls (runTestsInSandbox D localPath testCmd imageName))"
    by (simp_all add: sandbox_eval)
qed

subsection \<open>Instances\<close>

text \<open>Four calls: exit code 0, exit code 1, no image for the container, a failed file
  transfer.\<close>

theorem sandbox_result_from_exit_code_witness:
  "result (runTestsInSandbox
      \<lparr>createContainer = Returns (), container_start = Returns (),
       container_putArchive = Returns (), container_exec = Returns (),
       exec_start = Returns (), stream_end = Returns ''1 passed'',
       exec_inspect = Returns 0, container_stop = Returns (),
       container_remove = Returns ()\<rparr> ''/tmp/repo'' ''pytest'' ''python:3.9-alpine'')
     = \<lparr>success = True, output = ''1 passed''\<rparr>
   \<and> result (runTestsInSandbox
      \<lparr>createContainer = Returns (), container_start = Returns (),
       container_putArchive = Returns (), container_exec = Returns (),
       exec_start = Returns (), stream_end = Returns ''1 failed'',
       exec_inspect = Returns 1, container_stop = Returns (),
       container_remove = Returns ()\<rparr> ''/tmp/repo'' ''pytest'' ''python:3.9-alpine'')
     = \<lparr>success = False, output = ''1 failed''\<rparr>
   \<and> result (runTestsInSandbox
      \<lparr>createContainer = Throws ''no such image'', container_start = Returns (),
       container_putArchive = Returns (), container_exec = Returns (),
       exec_start = Returns (), stream_end = Returns ''1 passed'',
       exec_inspect = Returns 0, container_stop = Returns (),
       container_remove = Returns ()\<rparr> ''/tmp/repo'' ''pytest'' ''python:3.9-alpine'')
     = \<lparr>success = False, output = ''Sandbox execution failed: no such image''\<rparr>
   \<and> result (runTestsInSandbox
      \<lparr>createContainer = Returns (), container_start = Returns (),
       container_putArchive = Throws ''tar stream closed'', container_exec = Returns (),
       exec_start = Returns (), stream_end = Returns ''1 passed'',
       exec_inspect = Returns 0, container_stop = Returns (),
       container_remove = Returns ()\<rparr> ''/tmp/repo'' ''pytest'' ''python:3.9-alpine'')
     = \<lparr>success = False, output = ''Sandbox execution failed: tar stream closed''\<rparr>"
proof -
  let ?ok = "\<lparr>createContainer = Returns (), container_start = Returns (),
       container_putArchive = Returns (), container_exec = Returns (),
       exec_start = Returns (), stream_end = Returns ''1 passed'',
       exec_inspect = Returns 0, container_stop = Returns (),
       container_remove = Returns ()\<rparr>"
  let ?red = "\<lparr>createContainer = Returns (), container_start = Returns (),
       container_putArchive = Returns (), container_exec = Returns (),
       exec_start = Returns (), stream_end = Returns ''1 failed'',
       exec_inspect = Returns 1, container_stop = Returns (),
       container_remove = Returns ()\<rparr>"
  let ?noimg = "\<lparr>createContainer = Throws ''no such image'', container_start = Returns (),
       container_putArchive = Returns (), container_exec = Returns (),
       exec_start = Returns (), stream_end = Returns ''1 passed'',
       exec_inspect = Returns 0, container_stop = Returns (),
       container_remove = Returns ()\<rparr>"
  let ?notar = "\<lparr>createContainer = Returns (), container_start = Returns (),
       container_putArchive = Throws ''tar stream closed'', container_exec = Returns (),
       exec_start = Returns (), stream_end = Returns ''1 passed'',
       exec_inspect = Returns 0, container_stop = Returns (),
       container_remove = Returns ()\<rparr>"
  have a: "result (runTestsInSandbox ?ok ''/tmp/repo'' ''pytest'' ''python:3.9-alpine'')
     = \<lparr>success = True, output = ''1 passed''\<rparr>"
    using sandbox_result_from_exit_code [of ?ok "''/tmp/repo''" "''pytest''" "''python:3.9-alpine''"]
    by simp
  have b: "result (runTestsInSandbox ?red ''/tmp/repo'' ''pytest'' ''python:3.9-alpine'')
     = \<lparr>success = False, output = ''1 failed''\<rparr>"
    using sandbox_result_from_exit_code [of ?red "''/tmp/repo''" "''pytest''" "''python:3.9-alpine''"]
    by simp
  have c: "result (runTestsInSandbox ?noimg ''/tmp/repo'' ''pytest'' ''python:3.9-alpine'')
     = \<lparr>success = False, output = ''Sandbox execution failed: no such image''\<rparr>"
    using sandbox_result_from_exit_code [of ?noimg "''/tmp/repo''" "''pytest''" "''python:3.9-alpine''"]
    by simp
  have d: "result (runTestsInSandbox ?notar ''/tmp/repo'' ''pytest'' ''python:3.9-alpine'')
     = \<lparr>success = False, output = ''Sandbox execution failed: tar stream closed''\<rparr>"
    using sandbox_result_from_exit_code [of ?notar "''/tmp/repo''" "''pytest''" "''python:3.9-alpine''"]
    by simp
  from a b c d show ?thesis by blast
qed

text \<open>A call whose file transfer throws and whose \<open>remove\<close> throws.\<close>

lemma teardown_once_instance:
  "count_list (api_calls (runTestsInSandbox
      \<lparr>createContainer = Returns (), container_start = Returns (),
       container_putArchive = Throws ''tar stream closed'', container_exec = Returns (),
       exec_start = Returns (), stream_end = Returns ''1 passed'',
       exec_inspect = Returns 0, container_stop = Returns (),
       container_remove = Throws ''removal in progress''\<rparr>
      ''/tmp/repo'' ''pytest'' ''python:3.9-alpine'')) Stop = 1
   \<and> count_list (api_calls (runTestsInSandbox
      \<lparr>createContainer = Returns (), container_start = Returns (),
       container_putArchive = Throws ''tar stream closed'', container_exec = Returns (),
       exec_start = Returns (), stream_end = Returns ''1 passed'',
       exec_inspect = Returns 0, container_stop = Returns (),
       container_remove = Throws ''removal in progress''\<rparr>
      ''/tmp/repo'' ''pytest'' ''python:3.9-alpine'')) Remove = 1
   \<and> CleanupError ''removal in progress'' \<in> set (console_errors (runTestsInSandbox
      \<lparr>createContainer = Returns (), container_start = Returns (),
       container_putArchive = Throws ''tar stream closed'', container_exec = Returns (),
       exec_start = Returns (), stream_end = Returns ''1 passed'',
       exec_inspect = Returns 0, container_stop = Returns (),
       container_remove = Throws ''removal in progress''\<rparr>
      ''/tmp/repo'' ''pytest'' ''python:3.9-alpine''))"
proof -
  let ?D = "\<lparr>createContainer = Returns (), container_start = Returns (),
       container_putArchive = Throws ''tar stream closed'', container_exec = Returns (),
       exec_start = Returns (), stream_end = Returns ''1 passed'',
       exec_inspect = Returns 0, container_stop = Returns (),
       container_remove = Throws ''removal in progress''\<rparr>"
  have h: "createContainer ?D = Returns ()" by simp
  have s: "container_stop ?D = Returns () \<and> container_remove ?D = Throws ''removal in progress''"
    by simp
  from teardown_once [of ?D "''/tmp/repo''" "''pytest''" "''python:3.9-alpine''"] h s
  show ?thesis by (simp del: count_list.simps)
qed

text \<open>
  Claim C7 (in a call that created the container, stop and remove are each invoked exactly
  once on every exit path, also when the file transfer throws) fails on the code when
  \<open>stop\<close> throws: \<open>remove\<close> stands after \<open>stop\<close> in the same \<open>try\<close>, so it is skipped and the
  container, created with \<open>AutoRemove: false\<close>, is left behind. Here the container was
  created and started, the file transfer threw and \<open>stop\<close> threw in turn: \<open>remove\<close> was
  never invoked. The result returned is still the failure of the file transfer.
\<close>

theorem teardown_skips_remove_when_stop_throws:
  "api_calls (runTestsInSandbox
      \<lparr>createContainer = Returns (), container_start = Returns (),
       container_putArchive = Throws ''socket hang up'', container_exec = Returns (),
       exec_start = Returns (), stream_end = Returns ''1 passed'',
       exec_inspect = Returns 0, container_stop = Throws ''socket hang up'',
       container_remove = Returns ()\<rparr>
      ''/tmp/repo'' ''pytest'' ''python:3.9-alpine'')
     = [CreateContainer ''python:3.9-alpine'', Start, PutArchive ''/tmp/repo'', Stop]
   \<and> count_list (api_calls (runTestsInSandbox
      \<lparr>createContainer = Returns (), container_start = Returns (),
       container_putArchive = Throws ''socket hang up'', container_exec = Returns (),
       exec_start = Returns (), stream_end = Returns ''1 passed'',
       exec_inspect = Returns 0, container_stop = Throws ''socket hang up'',
       container_remove = Returns ()\<rparr>
      ''/tmp/repo'' ''pytest'' ''python:3.9-alpine'')) Remove = 0
   \<and> result (runTestsInSandbox
      \<lparr>createContainer = Returns (), container_start = Returns (),
       container_putArchive = Throws ''socket hang up'', container_exec = Returns (),
       exec_start = Returns (), stream_end = Returns ''1 passed'',
       exec_inspect = Returns 0, container_stop = Throws ''socket hang up'',
       container_remove = Returns ()\<rparr>
      ''/tmp/repo'' ''pytest'' ''python:3.9-alpine'')
     = \<lparr>success = False, output = ''Sandbox execution failed: socket hang up''\<rparr>"
  by (simp add: sandbox_eval)

section \<open>The Python engine\<close>

text \<open>
  Claim C4 (output that contains the unused-import marker F401 forces \<open>success = false\<close>
  even when the exit code is zero) fails for \<open>enginePython.run\<close>, the Python profile of the
  healing loop: it returns the sandbox result as it is. The legacy pipeline's \<open>runTests\<close>
  does apply the override, on the same sandbox behaviour.
\<close>

theorem enginePython_run_ignores_F401:
  "enginePython_run
      \<lparr>createContainer = Returns (), container_start = Returns (),
       container_putArchive = Returns (), container_exec = Returns (),
       exec_start = Returns (),
       stream_end = Returns ''./app.py:1:1: F401 os imported but unused'',
       exec_inspect = Returns 0, container_stop = Returns (),
       container_remove = Returns ()\<rparr> ''/tmp/repo'' ''.''
     = \<lparr>success = True, output = ''./app.py:1:1: F401 os imported but unused''\<rparr>
   \<and> str_includes ''./app.py:1:1: F401 os imported but unused'' ''F401''"
  by (simp add: enginePython_run_def sandbox_eval)

text \<open>The legacy \<open>runTests\<close> on the same sandbox behaviour: the tests did not pass.\<close>

lemma runTests_forces_failure_on_F401:
  "passed (runTests
      \<lparr>requirements_txt = True, root_package_json = False, frontend_package_json = False,
       package_scripts = Returns None,
       python_docker =
         \<lparr>createContainer = Returns (), container_start = Returns (),
          container_putArchive = Returns (), container_exec = Returns (),
          exec_start = Returns (),
          stream_end = Returns ''./app.py:1:1: F401 os imported but unused'',
          exec_inspect = Returns 0, container_stop = Returns (),
          container_remove = Returns ()\<rparr>,
       node_docker =
         \<lparr>createContainer = Returns (), container_start = Returns (),
          container_putArchive = Returns (), container_exec = Returns (),
          exec_start = Returns (), stream_end = Returns [],
          exec_inspect = Returns 0, container_stop = Returns (),
          container_remove = Returns ()\<rparr>\<rparr> ''/tmp/repo'') = False"
  by (simp add: runTests_def sandbox_eval Let_def)

text \<open>The override of the legacy \<open>runTests\<close>, and the exit-code rule of
  \<open>enginePython.run\<close>, in general.\<close>

lemma runTests_python_override:
  assumes "requirements_txt L"
    and "str_includes (output (result (runTestsInSandbox (python_docker L) localPath
            legacy_python_cmd ''python:3.9-alpine''))) ''F401''
         \<or> str_includes (output (result (runTestsInSandbox (python_docker L) localPath
            legacy_python_cmd ''python:3.9-alpine''))) ''SyntaxError''
         \<or> str_includes (output (result (runTestsInSandbox (python_docker L) localPath
            legacy_python_cmd ''python:3.9-alpine''))) ''E999''"
  shows "\<not> passed (runTests L localPath)"
  using assms by (auto simp: runTests_def Let_def split: option.splits)

lemma enginePython_run_success:
  "success (enginePython_run D localPath subDir) =
     (createContainer D = Returns () \<and> container_start D = Returns ()
      \<and> container_putArchive D = Returns () \<and> container_exec D = Returns ()
      \<and> exec_start D = Returns () \<and> (\<exists>out. stream_end D = Returns out)
      \<and> exec_inspect D = Returns 0)"
  unfolding enginePython_run_def by (rule sandbox_success_iff)

section \<open>The healing loop: iterations\<close>

lemma tests_run_append [simp]: "tests_run (xs @ ys) = tests_run xs @ tests_run ys"
  by (induction xs rule: tests_run.induct) auto

lemma solver_runs_append [simp]: "solver_runs (xs @ ys) = solver_runs xs @ solver_runs ys"
  by (induction xs rule: solver_runs.induct) auto

lemma sandbox_results_append [simp]:
  "sandbox_results (xs @ ys) = sandbox_results xs @ sandbox_results ys"
  by (induction xs rule: sandbox_results.induct) auto

lemma loop_body_Break:
  assumes "loop_body orc i st = Break st'"
  shows "iterations st' = i
    \<and> tests_run (history st') = tests_run (history st) @ [i]
    \<and> solver_runs (history st') = solver_runs (history st)"
  using assms by (auto simp: loop_body_def Let_def split: if_splits)

lemma loop_body_Next:
  assumes "loop_body orc i st = Next st'"
  shows "i \<noteq> MAX_ITER \<and> iterations st' = i
    \<and> tests_run (history st') = tests_run (history st) @ [i]
    \<and> solver_runs (history st') = solver_runs (history st) @ [i]"
  using assms by (auto simp: loop_body_def Let_def split: if_splits)

lemma healing_loop_counts:
  "i \<le> MAX_ITER \<Longrightarrow>
   i \<le> iterations (healing_loop orc i st)
   \<and> iterations (healing_loop orc i st) \<le> MAX_ITER
   \<and> tests_run (history (healing_loop orc i st))
       = tests_run (history st) @ [i..<Suc (iterations (healing_loop orc i st))]
   \<and> solver_runs (history (healing_loop orc i st))
       = solver_runs (history st) @ [i..<iterations (healing_loop orc i st)]"
proof (induction orc i st rule: healing_loop.induct)
  case (1 orc i st)
  show ?case
  proof (cases "loop_body orc i st")
    case (Break st')
    with "1.prems" have eq: "healing_loop orc i st = st'"
      by (simp add: healing_loop.simps)
    from loop_body_Break [OF Break] "1.prems" show ?thesis
      unfolding eq by simp
  next
    case (Next st')
    with "1.prems" have eq: "healing_loop orc i st = healing_loop orc (Suc i) st'"
      by (simp add: healing_loop.simps)
    from loop_body_Next [OF Next] have ne: "i \<noteq> MAX_ITER"
      and h: "tests_run (history st') = tests_run (history st) @ [i]"
        "solver_runs (history st') = solver_runs (history st) @ [i]"
      by simp_all
    from ne "1.prems" have lt: "Suc i \<le> MAX_ITER" by simp
    have nle: "\<not> MAX_ITER < i" using "1.prems" by simp
    from "1.IH" [OF nle Next lt]
    have ih: "Suc i \<le> iterations (healing_loop orc (Suc i) st')"
      "iterations (healing_loop orc (Suc i) st') \<le> MAX_ITER"
      "tests_run (history (healing_loop orc (Suc i) st'))
         = tests_run (history st') @ [Suc i..<Suc (iterations (healing_loop orc (Suc i) st'))]"
      "solver_runs (history (healing_loop orc (Suc i) st'))
         = solver_runs (history st') @ [Suc i..<iterations (healing_loop orc (Suc i) st')]"
      by simp_all
    have t: "[i..<Suc (iterations (healing_loop orc (Suc i) st'))]
        = i # [Suc i..<Suc (iterations (healing_loop orc (Suc i) st'))]"
      using ih(1) by (simp add: upt_rec)
    have u: "[i..<iterations (healing_loop orc (Suc i) st')]
        = i # [Suc i..<iterations (healing_loop orc (Suc i) st')]"
      using ih(1) by (simp add: upt_rec)
    show ?thesis unfolding eq using ih h t u by simp
  qed
qed

text \<open>
  Claim C3. Whatever \<open>engine.run\<close>, \<open>analyzeOutput\<close> and the solver's surroundings do, the
  loop ends with its counter between 1 and \<open>MAX_ITER = 6\<close>; the tests were run once at
  each counter value from 1 up to the final one, so at most six times; and the solver was
  run once at each counter value below the final one, so the counter was incremented exactly
  once after each full test, diagnose and repair cycle. The loop is a total function: its
  termination is proved with the measure \<open>MAX_ITER + 1 - i\<close>.
\<close>

theorem loop_bounded_by_MAX_ITER:
  "MAX_ITER = 6
   \<and> 1 \<le> iterations (healing_loop orc 1 (initial_state files))
   \<and> iterations (healing_loop orc 1 (initial_state files)) \<le> MAX_ITER
   \<and> tests_run (history (healing_loop orc 1 (initial_state files)))
       = [1..<Suc (iterations (healing_loop orc 1 (initial_state files)))]
   \<and> solver_runs (history (healing_loop orc 1 (initial_state files)))
       = [1..<iterations (healing_loop orc 1 (initial_state files))]"
proof -
  have "(1::nat) \<le> MAX_ITER" by (simp add: MAX_ITER_def)
  from healing_loop_counts [OF this, of orc "initial_state files"]
  show ?thesis by (simp add: initial_state_def MAX_ITER_def)
qed

section \<open>The solver: what a repair batch does to the log\<close>

lemma find_index_distinct:
  assumes "distinct (map f xs)" "j < length xs"
  shows "find_index (\<lambda>x. f x = f (xs ! j)) xs = Some j"
proof -
  have "\<forall>k<j. f (xs ! k) \<noteq> f (xs ! j)"
  proof (intro allI impI)
    fix k assume kj: "k < j"
    with assms(2) have "k < length (map f xs)" "j < length (map f xs)" "k \<noteq> j" by simp_all
    with assms(1) have "map f xs ! k \<noteq> map f xs ! j"
      by (simp add: distinct_conv_nth)
    with assms(2) kj show "f (xs ! k) \<noteq> f (xs ! j)" by simp
  qed
  with assms(2) show ?thesis by (simp add: find_index_Some_iff)
qed

lemma updateIssueStatus_length [simp]:
  "length (updateIssueStatus f t l s now L) = length L"
  by (simp add: updateIssueStatus_def split: option.splits)

lemma updateIssueStatus_nth:
  assumes "j < length L"
  shows "updateIssueStatus f t l s now L ! j =
     (if find_index (\<lambda>i. file i = f \<and> type i = t \<and> line i = l) L = Some j
      then (L ! j)\<lparr>status := s, fixedAt := Some now\<rparr> else L ! j)"
  using assms by (auto simp: updateIssueStatus_def split: option.splits)

lemma updateIssueStatus_other:
  assumes "j < length L" "key3 (L ! j) \<noteq> (f, t, l)"
  shows "updateIssueStatus f t l s now L ! j = L ! j"
  using assms by (auto simp: updateIssueStatus_nth find_index_Some_iff key3_def)

lemma updateIssueStatus_key3_nth:
  assumes "j < length L"
  shows "key3 (updateIssueStatus f t l s now L ! j) = key3 (L ! j)"
  using assms by (simp add: updateIssueStatus_nth key3_def)

lemma updateIssueStatus_key3 [simp]:
  "map key3 (updateIssueStatus f t l s now L) = map key3 L"
  by (rule nth_equalityI) (simp_all add: updateIssueStatus_key3_nth)

lemma updateIssueStatus_hit:
  assumes "distinct (map key3 L)" "j < length L" "key3 (L ! j) = (f, t, l)"
  shows "updateIssueStatus f t l s now L ! j = (L ! j)\<lparr>status := s, fixedAt := Some now\<rparr>"
proof -
  have "(\<lambda>i. file i = f \<and> type i = t \<and> line i = l) = (\<lambda>x. key3 x = key3 (L ! j))"
    using assms(3) by (auto simp: key3_def)
  with find_index_distinct [OF assms(1,2)]
  have "find_index (\<lambda>i. file i = f \<and> type i = t \<and> line i = l) L = Some j" by simp
  with assms(2) show ?thesis by (simp add: updateIssueStatus_nth)
qed

lemma solve_issue_log:
  "issues_log (solve_issue E snip k iss st) =
     updateIssueStatus (file iss) (type iss) (line iss) (outcome_status E snip k iss st)
       (clock E k) (issues_log st)"
  by (simp add: solve_issue_def outcome_status_def
      split: option.splits fs_node.splits attempt.splits)

lemma solve_issue_dom [simp]: "dom (tree (solve_issue E snip k iss st)) = dom (tree st)"
  by (auto simp: solve_issue_def split: option.splits fs_node.splits attempt.splits)

lemma solve_loop_dom [simp]: "dom (tree (solve_loop E snip k rest st)) = dom (tree st)"
  by (induction rest arbitrary: st k) auto

lemma solve_loop_length [simp]:
  "length (issues_log (solve_loop E snip k rest st)) = length (issues_log st)"
  by (induction rest arbitrary: st k) (auto simp: solve_issue_log)

lemma solve_loop_key3 [simp]:
  "map key3 (issues_log (solve_loop E snip k rest st)) = map key3 (issues_log st)"
  by (induction rest arbitrary: st k) (auto simp: solve_issue_log)

lemma solve_loop_untouched:
  assumes "j < length (issues_log st)" "key3 (issues_log st ! j) \<notin> key3 ` set rest"
  shows "issues_log (solve_loop E snip k rest st) ! j = issues_log st ! j"
  using assms
proof (induction rest arbitrary: st k)
  case Nil
  then show ?case by simp
next
  case (Cons iss rest)
  let ?s1 = "solve_issue E snip k iss st"
  have ne: "key3 (issues_log st ! j) \<noteq> (file iss, type iss, line iss)"
    using Cons.prems(2) by (auto simp: key3_def)
  have same: "issues_log ?s1 ! j = issues_log st ! j"
    using updateIssueStatus_other [OF Cons.prems(1) ne] by (simp add: solve_issue_log)
  have "j < length (issues_log ?s1)" using Cons.prems(1) by (simp add: solve_issue_log)
  moreover have "key3 (issues_log ?s1 ! j) \<notin> key3 ` set rest"
    using same Cons.prems(2) by simp
  ultimately have "issues_log (solve_loop E snip (Suc k) rest ?s1) ! j = issues_log ?s1 ! j"
    by (rule Cons.IH)
  with same show ?case by simp
qed

lemma outcome_status_cases:
  "(resolve E (file iss) \<notin> dom (tree st) \<longrightarrow>
      outcome_status E snip k iss st = FAILED_FILE_NOT_FOUND)
   \<and> (resolve E (file iss) \<in> dom (tree st) \<longrightarrow>
        (outcome_status E snip k iss st = FIXED \<or> outcome_status E snip k iss st = FAILED_GENERATION)
        \<and> ((\<forall>c. \<exists>e. repair_oracle E k iss c snip = Throws e) \<longrightarrow>
              outcome_status E snip k iss st = FAILED_GENERATION))"
proof (cases "tree st (resolve E (file iss))")
  case None
  then show ?thesis by (auto simp: outcome_status_def)
next
  case (Some node)
  show ?thesis
  proof (cases node)
    case Directory
    with Some show ?thesis by (auto simp: outcome_status_def)
  next
    case (RegularFile c)
    show ?thesis
    proof (cases "repair_oracle E k iss c snip")
      case (Returns x)
      with Some RegularFile show ?thesis
        by (auto simp: outcome_status_def) (metis attempt.distinct(1))
    next
      case (Throws e)
      with Some RegularFile show ?thesis by (auto simp: outcome_status_def)
    qed
  qed
qed

lemma solve_loop_status:
  assumes "distinct (map key3 (issues_log st))" and "distinct (map key3 rest)"
    and "j < length (issues_log st)" and "iss \<in> set rest"
    and "key3 iss = key3 (issues_log st ! j)"
  shows "\<exists>k' st'. dom (tree st') = dom (tree st)
    \<and> status (issues_log (solve_loop E snip k rest st) ! j) = outcome_status E snip k' iss st'"
  using assms
proof (induction rest arbitrary: st k)
  case Nil
  then show ?case by simp
next
  case (Cons x rest)
  let ?s1 = "solve_issue E snip k x st"
  have len1: "j < length (issues_log ?s1)" using Cons.prems(3) by (simp add: solve_issue_log)
  have notin: "key3 x \<notin> key3 ` set rest" using Cons.prems(2) by simp
  show ?case
  proof (cases "key3 x = key3 (issues_log st ! j)")
    case True
    have "iss = x"
    proof (rule ccontr)
      assume "iss \<noteq> x"
      with Cons.prems(4) have "iss \<in> set rest" by simp
      then have "key3 iss \<in> key3 ` set rest" by (rule imageI)
      with Cons.prems(5) True notin show False by simp
    qed
    have hit: "key3 (issues_log st ! j) = (file x, type x, line x)"
      using True by (simp add: key3_def)
    have l1: "issues_log ?s1 ! j
      = (issues_log st ! j)\<lparr>status := outcome_status E snip k x st, fixedAt := Some (clock E k)\<rparr>"
      using updateIssueStatus_hit [OF Cons.prems(1,3) hit] by (simp add: solve_issue_log)
    then have "key3 (issues_log ?s1 ! j) = key3 x" using True by (simp add: key3_def)
    with notin have "key3 (issues_log ?s1 ! j) \<notin> key3 ` set rest" by simp
    from solve_loop_untouched [OF len1 this]
    have "issues_log (solve_loop E snip (Suc k) rest ?s1) ! j = issues_log ?s1 ! j" .
    with l1 \<open>iss = x\<close>
    have "status (issues_log (solve_loop E snip k (x # rest) st) ! j) = outcome_status E snip k iss st"
      by simp
    then show ?thesis by blast
  next
    case False
    with Cons.prems(5) have "iss \<noteq> x" by auto
    with Cons.prems(4) have mem: "iss \<in> set rest" by simp
    have ne: "key3 (issues_log st ! j) \<noteq> (file x, type x, line x)"
      using False by (auto simp: key3_def)
    have same: "issues_log ?s1 ! j = issues_log st ! j"
      using updateIssueStatus_other [OF Cons.prems(3) ne] by (simp add: solve_issue_log)
    have d1: "distinct (map key3 (issues_log ?s1))"
      using Cons.prems(1) by (simp add: solve_issue_log)
    have d2: "distinct (map key3 rest)" using Cons.prems(2) by simp
    have k1: "key3 iss = key3 (issues_log ?s1 ! j)" using same Cons.prems(5) by simp
    from Cons.IH [OF d1 d2 len1 mem k1, of "Suc k"]
    obtain k' st' where "dom (tree st') = dom (tree ?s1)"
      and "status (issues_log (solve_loop E snip (Suc k) rest ?s1) ! j)
            = outcome_status E snip k' iss st'"
      by blast
    then have "dom (tree st') = dom (tree st)
      \<and> status (issues_log (solve_loop E snip k (x # rest) st) ! j) = outcome_status E snip k' iss st'"
      by simp
    then show ?thesis by blast
  qed
qed

text \<open>
  On a log whose entries have pairwise different file, type and line, a repair batch over
  the \<open>OPEN\<close> issues resolves each of them and touches nothing else: an issue whose file
  is missing ends \<open>FAILED_FILE_NOT_FOUND\<close>; one whose path exists ends \<open>FIXED\<close> or
  \<open>FAILED_GENERATION\<close>, the latter when the repair call throws; and the batch goes on after
  either failure.
\<close>

lemma runSolver_unique_keys:
  assumes "distinct (map key3 L)" and "j < length L"
  shows "(status (L ! j) \<noteq> OPEN \<longrightarrow>
            issues_log (runSolver E (filter (\<lambda>iss. status iss = OPEN) L) out L files) ! j = L ! j)
    \<and> (status (L ! j) = OPEN \<and> resolve E (file (L ! j)) \<notin> dom files \<longrightarrow>
          status (issues_log (runSolver E (filter (\<lambda>iss. status iss = OPEN) L) out L files) ! j)
            = FAILED_FILE_NOT_FOUND)
    \<and> (status (L ! j) = OPEN \<and> resolve E (file (L ! j)) \<in> dom files \<longrightarrow>
          (status (issues_log (runSolver E (filter (\<lambda>iss. status iss = OPEN) L) out L files) ! j)
             = FIXED
           \<or> status (issues_log (runSolver E (filter (\<lambda>iss. status iss = OPEN) L) out L files) ! j)
             = FAILED_GENERATION)
          \<and> ((\<forall>k c. \<exists>e. repair_oracle E k (L ! j) c (substring0 out 3000) = Throws e) \<longrightarrow>
               status (issues_log (runSolver E (filter (\<lambda>iss. status iss = OPEN) L) out L files) ! j)
                 = FAILED_GENERATION))"
proof -
  let ?open = "filter (\<lambda>iss. status iss = OPEN) L"
  let ?st = "\<lparr>issues_log = L, tree = files, fixesApplied = []\<rparr>"
  let ?R = "runSolver E ?open out L files"
  have R: "issues_log ?R = issues_log (solve_loop E (substring0 out 3000) 0 ?open ?st)"
    by (simp add: runSolver_def)
  have inj: "key3 (L ! j) \<in> key3 ` set ?open \<longleftrightarrow> status (L ! j) = OPEN"
  proof
    assume "key3 (L ! j) \<in> key3 ` set ?open"
    then obtain x where x: "x \<in> set L" "status x = OPEN" "key3 x = key3 (L ! j)" by auto
    from x(1) obtain m where m: "m < length L" "x = L ! m" by (auto simp: in_set_conv_nth)
    with x(3) assms have "map key3 L ! m = map key3 L ! j" by simp
    with assms m(1) have "m = j" by (auto simp: distinct_conv_nth)
    with m x(2) show "status (L ! j) = OPEN" by simp
  next
    assume "status (L ! j) = OPEN"
    with assms(2) have "L ! j \<in> set ?open" by simp
    then show "key3 (L ! j) \<in> key3 ` set ?open" by (rule imageI)
  qed
  have p1: "status (L ! j) \<noteq> OPEN \<longrightarrow> issues_log ?R ! j = L ! j"
  proof
    assume "status (L ! j) \<noteq> OPEN"
    with inj have "key3 (issues_log ?st ! j) \<notin> key3 ` set ?open" by simp
    moreover have "j < length (issues_log ?st)" using assms(2) by simp
    ultimately have "issues_log (solve_loop E (substring0 out 3000) 0 ?open ?st) ! j
        = issues_log ?st ! j"
      by (rule solve_loop_untouched [rotated])
    with R show "issues_log ?R ! j = L ! j" by simp
  qed
  have p2: "status (L ! j) = OPEN \<longrightarrow>
      (\<exists>k' st'. dom (tree st') = dom files
         \<and> status (issues_log ?R ! j) = outcome_status E (substring0 out 3000) k' (L ! j) st')"
  proof
    assume op: "status (L ! j) = OPEN"
    have d1: "distinct (map key3 (issues_log ?st))" using assms(1) by simp
    have d2: "distinct (map key3 ?open)" using assms(1) by (rule distinct_map_filter)
    have j': "j < length (issues_log ?st)" using assms(2) by simp
    have mem: "L ! j \<in> set ?open" using op assms(2) by simp
    have k: "key3 (L ! j) = key3 (issues_log ?st ! j)" by simp
    from solve_loop_status [OF d1 d2 j' mem k, of E "substring0 out 3000" 0] R
    show "\<exists>k' st'. dom (tree st') = dom files
         \<and> status (issues_log ?R ! j) = outcome_status E (substring0 out 3000) k' (L ! j) st'"
      by simp
  qed
  show ?thesis
  proof (intro conjI impI)
    assume "status (L ! j) \<noteq> OPEN"
    with p1 show "issues_log ?R ! j = L ! j" by simp
  next
    assume a: "status (L ! j) = OPEN \<and> resolve E (file (L ! j)) \<notin> dom files"
    with p2 obtain k' st' where "dom (tree st') = dom files"
      "status (issues_log ?R ! j) = outcome_status E (substring0 out 3000) k' (L ! j) st'" by blast
    with a outcome_status_cases [where iss = "L ! j" and st = st' and E = E
        and snip = "substring0 out 3000" and k = k']
    show "status (issues_log ?R ! j) = FAILED_FILE_NOT_FOUND" by simp
  next
    assume a: "status (L ! j) = OPEN \<and> resolve E (file (L ! j)) \<in> dom files"
    with p2 obtain k' st' where "dom (tree st') = dom files"
      "status (issues_log ?R ! j) = outcome_status E (substring0 out 3000) k' (L ! j) st'" by blast
    with a outcome_status_cases [where iss = "L ! j" and st = st' and E = E
        and snip = "substring0 out 3000" and k = k']
    show "status (issues_log ?R ! j) = FIXED \<or> status (issues_log ?R ! j) = FAILED_GENERATION"
      by simp
  next
    assume a: "status (L ! j) = OPEN \<and> resolve E (file (L ! j)) \<in> dom files"
      and thr: "\<forall>k c. \<exists>e. repair_oracle E k (L ! j) c (substring0 out 3000) = Throws e"
    from a p2 obtain k' st' where "dom (tree st') = dom files"
      "status (issues_log ?R ! j) = outcome_status E (substring0 out 3000) k' (L ! j) st'" by blast
    with a thr outcome_status_cases [where iss = "L ! j" and st = st' and E = E
        and snip = "substring0 out 3000" and k = k']
    show "status (issues_log ?R ! j) = FAILED_GENERATION" by simp
  qed
qed

section \<open>The healing loop: fixes applied and the last sandbox result\<close>

lemma solve_issue_fixes_mono:
  "fixesApplied st \<noteq> [] \<Longrightarrow> fixesApplied (solve_issue E snip k iss st) \<noteq> []"
  by (simp add: solve_issue_def split: option.splits fs_node.splits attempt.splits)

lemma solve_issue_fixed:
  assumes "x \<in> set (issues_log (solve_issue E snip k iss st))" "status x = FIXED"
  shows "(x \<in> set (issues_log st)) \<or> fixesApplied (solve_issue E snip k iss st) \<noteq> []"
proof (cases "outcome_status E snip k iss st = FIXED")
  case True
  then show ?thesis
    by (auto simp: solve_issue_def outcome_status_def
        split: option.splits fs_node.splits attempt.splits)
next
  case False
  from assms(1) updateIssueStatus_elems [of x "file iss" "type iss" "line iss"
      "outcome_status E snip k iss st" "clock E k" "issues_log st"]
  have "x \<in> set (issues_log st) \<or> status x = outcome_status E snip k iss st"
    by (auto simp: solve_issue_log)
  with False assms(2) show ?thesis by auto
qed

lemma solve_loop_fixes_mono:
  "fixesApplied st \<noteq> [] \<Longrightarrow> fixesApplied (solve_loop E snip k rest st) \<noteq> []"
  by (induction rest arbitrary: st k) (auto simp: solve_issue_fixes_mono)

lemma solve_loop_fixed:
  assumes "x \<in> set (issues_log (solve_loop E snip k rest st))" "status x = FIXED"
  shows "x \<in> set (issues_log st) \<or> fixesApplied (solve_loop E snip k rest st) \<noteq> []"
  using assms
proof (induction rest arbitrary: st k)
  case Nil
  then show ?case by simp
next
  case (Cons iss rest)
  let ?s1 = "solve_issue E snip k iss st"
  from Cons.IH [of "Suc k" ?s1] Cons.prems
  have "x \<in> set (issues_log ?s1) \<or> fixesApplied (solve_loop E snip (Suc k) rest ?s1) \<noteq> []"
    by simp
  then show ?case
  proof
    assume "x \<in> set (issues_log ?s1)"
    from solve_issue_fixed [OF this Cons.prems(2)]
    show ?thesis using solve_loop_fixes_mono [of ?s1 E snip "Suc k" rest] by auto
  next
    assume "fixesApplied (solve_loop E snip (Suc k) rest ?s1) \<noteq> []"
    then show ?thesis by simp
  qed
qed

lemma runSolver_fixed:
  assumes "x \<in> set (issues_log (runSolver E openIssues out L files))" "status x = FIXED"
  shows "x \<in> set L \<or> fixesApplied (runSolver E openIssues out L files) \<noteq> []"
  using assms solve_loop_fixed [of x E "substring0 out 3000" 0 openIssues
      "\<lparr>issues_log = L, tree = files, fixesApplied = []\<rparr>"]
  by (auto simp: runSolver_def split: if_splits)

text \<open>A \<open>FIXED\<close> entry in the log means that a fix was applied during the run.\<close>

lemma loop_body_fixed_inv:
  assumes inv: "(\<exists>x\<in>set (log_file st). status x = FIXED) \<longrightarrow> allFixes st \<noteq> []"
    and body: "loop_body orc i st = Break st' \<or> loop_body orc i st = Next st'"
  shows "(\<exists>x\<in>set (log_file st'). status x = FIXED) \<longrightarrow> allFixes st' \<noteq> []"
proof
  assume "\<exists>x\<in>set (log_file st'). status x = FIXED"
  then obtain x where x: "x \<in> set (log_file st')" "status x = FIXED" by blast
  let ?r = "engine_run orc i (worktree st)"
  let ?D = "analyzeOutput orc i (substring0 (output ?r) 12000)"
  let ?M = "merge_issues (log_file st) ?D i"
  have merged: "y \<in> set ?M \<Longrightarrow> status y = FIXED \<Longrightarrow> allFixes st \<noteq> []" for y
    using merge_issues_elems [of y "log_file st" ?D i] inv by auto
  from body show "allFixes st' \<noteq> []"
  proof
    assume "loop_body orc i st = Break st'"
    then have "(log_file st' = log_file st \<or> log_file st' = ?M) \<and> allFixes st' = allFixes st"
      by (auto simp: loop_body_def Let_def split: if_splits)
    with x inv merged show ?thesis by auto
  next
    assume "loop_body orc i st = Next st'"
    then have eq: "log_file st' = issues_log (runSolver (solver_at orc i)
          (filter (\<lambda>iss. status iss = OPEN) ?M) (output ?r) ?M (worktree st))"
      "allFixes st' = allFixes st @ fixesApplied (runSolver (solver_at orc i)
          (filter (\<lambda>iss. status iss = OPEN) ?M) (output ?r) ?M (worktree st))"
      by (auto simp: loop_body_def Let_def split: if_splits)
    from x eq(1) runSolver_fixed [of x "solver_at orc i" "filter (\<lambda>iss. status iss = OPEN) ?M"
        "output ?r" ?M "worktree st"]
    have "x \<in> set ?M \<or> fixesApplied (runSolver (solver_at orc i)
          (filter (\<lambda>iss. status iss = OPEN) ?M) (output ?r) ?M (worktree st)) \<noteq> []" by simp
    with merged [of x] x(2) eq(2) show ?thesis by auto
  qed
qed

lemma healing_loop_fixed_inv:
  assumes "(\<exists>x\<in>set (log_file st). status x = FIXED) \<longrightarrow> allFixes st \<noteq> []"
  shows "(\<exists>x\<in>set (log_file (healing_loop orc i st)). status x = FIXED)
      \<longrightarrow> allFixes (healing_loop orc i st) \<noteq> []"
  using assms
proof (induction orc i st rule: healing_loop.induct)
  case (1 orc i st)
  show ?case
  proof (cases "MAX_ITER < i")
    case True
    with "1.prems" show ?thesis by (simp add: healing_loop.simps)
  next
    case False
    show ?thesis
    proof (cases "loop_body orc i st")
      case (Break st')
      with False have eq: "healing_loop orc i st = st'" by (simp add: healing_loop.simps)
      from loop_body_fixed_inv [OF "1.prems", of orc i st'] Break show ?thesis
        unfolding eq by simp
    next
      case (Next st')
      with False have eq: "healing_loop orc i st = healing_loop orc (Suc i) st'"
        by (simp add: healing_loop.simps)
      from loop_body_fixed_inv [OF "1.prems", of orc i st'] Next
      have "(\<exists>x\<in>set (log_file st'). status x = FIXED) \<longrightarrow> allFixes st' \<noteq> []" by simp
      from "1.IH" [OF False Next this] show ?thesis unfolding eq .
    qed
  qed
qed

text \<open>\<open>isSuccess\<close> is the \<open>success\<close> of the last sandbox result.\<close>

lemma loop_body_results:
  assumes "\<not> isSuccess st"
  shows "(loop_body orc i st = Break st' \<longrightarrow>
            (\<exists>r. sandbox_results (history st') = sandbox_results (history st) @ [r]
                 \<and> isSuccess st' = success r))
       \<and> (loop_body orc i st = Next st' \<longrightarrow>
            (\<exists>r. sandbox_results (history st') = sandbox_results (history st) @ [r])
            \<and> \<not> isSuccess st')"
  using assms by (auto simp: loop_body_def Let_def split: if_splits)

lemma healing_loop_last_result:
  assumes "\<not> isSuccess st" "i \<le> MAX_ITER"
  shows "sandbox_results (history (healing_loop orc i st)) \<noteq> []
    \<and> isSuccess (healing_loop orc i st)
        = success (last (sandbox_results (history (healing_loop orc i st))))"
  using assms
proof (induction orc i st rule: healing_loop.induct)
  case (1 orc i st)
  have nle: "\<not> MAX_ITER < i" using "1.prems"(2) by simp
  show ?case
  proof (cases "loop_body orc i st")
    case (Break st')
    with nle have eq: "healing_loop orc i st = st'" by (simp add: healing_loop.simps)
    from loop_body_results [OF "1.prems"(1), of orc i st'] Break show ?thesis
      unfolding eq by auto
  next
    case (Next st')
    with nle have eq: "healing_loop orc i st = healing_loop orc (Suc i) st'"
      by (simp add: healing_loop.simps)
    from loop_body_results [OF "1.prems"(1), of orc i st'] Next have ns: "\<not> isSuccess st'" by simp
    from loop_body_Next [OF Next] "1.prems"(2) have "Suc i \<le> MAX_ITER" by simp
    from "1.IH" [OF nle Next ns this] show ?thesis unfolding eq .
  qed
qed

subsection \<open>Keys of the log during a run\<close>

lemma updateIssueStatus_issue_key [simp]:
  "map issue_key (updateIssueStatus f t l s now L) = map issue_key L"
proof (rule nth_equalityI)
  show "length (map issue_key (updateIssueStatus f t l s now L)) = length (map issue_key L)"
    by simp
next
  fix j assume "j < length (map issue_key (updateIssueStatus f t l s now L))"
  then have "j < length L" by simp
  then show "map issue_key (updateIssueStatus f t l s now L) ! j = map issue_key L ! j"
    by (simp add: updateIssueStatus_nth issue_key_def)
qed

lemma solve_loop_issue_key [simp]:
  "map issue_key (issues_log (solve_loop E snip k rest st)) = map issue_key (issues_log st)"
  by (induction rest arbitrary: st k) (auto simp: solve_issue_log)

lemma runSolver_issue_key [simp]:
  "map issue_key (issues_log (runSolver E openIssues out L files)) = map issue_key L"
  by (simp add: runSolver_def)

lemma distinct_issue_key_imp_key3:
  assumes "distinct (map issue_key L)"
  shows "distinct (map key3 L)"
proof -
  have "inj_on key3 (set L)"
  proof (rule inj_onI)
    fix x y assume "x \<in> set L" "y \<in> set L" "key3 x = key3 y"
    then have "issue_key x = issue_key y" by (simp add: key3_def issue_key_def)
    with assms \<open>x \<in> set L\<close> \<open>y \<in> set L\<close> show "x = y"
      by (auto simp: distinct_map dest: inj_onD)
  qed
  moreover have "distinct L" using assms by (simp add: distinct_map)
  ultimately show ?thesis by (simp add: distinct_map)
qed

text \<open>
  When no discovered batch repeats a key, the keys of the log are pairwise different
  throughout the run.
\<close>

lemma loop_body_distinct_keys:
  assumes "\<forall>i out. distinct (map issue_key (analyzeOutput orc i out))"
    and "distinct (map issue_key (log_file st))"
    and "loop_body orc i st = Break st' \<or> loop_body orc i st = Next st'"
  shows "distinct (map issue_key (log_file st'))"
proof -
  let ?r = "engine_run orc i (worktree st)"
  let ?D = "analyzeOutput orc i (substring0 (output ?r) 12000)"
  let ?M = "merge_issues (log_file st) ?D i"
  have M: "distinct (map issue_key ?M)"
    using merge_issues_distinct_keys [OF assms(2), of ?D i] assms(1) by simp
  from assms(3) have "log_file st' = log_file st \<or> log_file st' = ?M
      \<or> map issue_key (log_file st') = map issue_key ?M"
    by (auto simp: loop_body_def Let_def split: if_splits)
  with assms(2) M show ?thesis by auto
qed

lemma healing_loop_distinct_keys:
  assumes "\<forall>i out. distinct (map issue_key (analyzeOutput orc i out))"
    and "distinct (map issue_key (log_file st))"
  shows "distinct (map issue_key (log_file (healing_loop orc i st)))"
  using assms
proof (induction orc i st rule: healing_loop.induct)
  case (1 orc i st)
  show ?case
  proof (cases "MAX_ITER < i")
    case True
    with "1.prems" show ?thesis by (simp add: healing_loop.simps)
  next
    case False
    show ?thesis
    proof (cases "loop_body orc i st")
      case (Break st')
      with False have eq: "healing_loop orc i st = st'" by (simp add: healing_loop.simps)
      from loop_body_distinct_keys [OF "1.prems", of i st'] Break show ?thesis
        unfolding eq by simp
    next
      case (Next st')
      with False have eq: "healing_loop orc i st = healing_loop orc (Suc i) st'"
        by (simp add: healing_loop.simps)
      from loop_body_distinct_keys [OF "1.prems", of i st'] Next
      have "distinct (map issue_key (log_file st'))" by simp
      from "1.IH" [OF False Next "1.prems"(1) this] show ?thesis unfolding eq .
    qed
  qed
qed

section \<open>Commit and push\<close>

lemma added_files_append [simp]: "added_files (xs @ ys) = added_files xs @ added_files ys"
  by (induction xs rule: added_files.induct) auto

lemma commit_messages_append [simp]:
  "commit_messages (xs @ ys) = commit_messages xs @ commit_messages ys"
  by (induction xs rule: commit_messages.induct) auto

lemma pushes_append [simp]: "pushes (xs @ ys) = pushes xs @ pushes ys"
  by (induction xs rule: pushes.induct) auto

lemma commit_one_calls:
  "added_files (git_calls (commit_one G k fx acc)) = added_files (git_calls acc) @ [file fx]
   \<and> commit_messages (git_calls (commit_one G k fx acc))
       = commit_messages (git_calls acc)
         @ (if add_result G k = Returns () then [commit_message fx] else [])
   \<and> pushes (git_calls (commit_one G k fx acc)) = pushes (git_calls acc)
   \<and> committed (commit_one G k fx acc)
       = committed acc
         @ (if add_result G k = Returns () \<and> commit_result G k = Returns ()
            then [(fx, commit_message fx)] else [])"
  by (simp add: commit_one_def split: attempt.splits)

lemma commitFixes_calls:
  "added_files (git_calls (commitFixes G k fxs acc)) = added_files (git_calls acc) @ map file fxs
   \<and> commit_messages (git_calls (commitFixes G k fxs acc))
       = commit_messages (git_calls acc)
         @ map (\<lambda>(j, fx). commit_message fx)
             (filter (\<lambda>(j, fx). add_result G j = Returns ()) (enumerate k fxs))
   \<and> pushes (git_calls (commitFixes G k fxs acc)) = pushes (git_calls acc)
   \<and> committed (commitFixes G k fxs acc)
       = committed acc
         @ map (\<lambda>(j, fx). (fx, commit_message fx))
             (filter (\<lambda>(j, fx). add_result G j = Returns () \<and> commit_result G j = Returns ())
                (enumerate k fxs))"
proof (induction fxs arbitrary: k acc)
  case Nil
  then show ?case by simp
next
  case (Cons fx fxs)
  show ?case
    using Cons.IH [of "Suc k" "commit_one G k fx acc"] commit_one_calls [of G k fx acc]
    by simp
qed

text \<open>
  Claim C9, as the code has it. The terminal status is \<open>PASSED\<close> exactly when the last
  sandbox result has \<open>success = true\<close>, and it does not depend on what git does. When a
  fix was applied during the run or the tests passed, \<open>git add\<close> is attempted for every
  \<open>FIXED\<close> issue of the log, in log order; a commit with the message naming type, file and
  the first 60 characters of the description is attempted for each issue whose \<open>add\<close>
  returned; the fixes reported are those whose \<open>add\<close> and \<open>commit\<close> both returned; the
  branch is pushed once, last; and a push failure is logged. When no fix was applied and
  the tests did not pass, nothing is committed and nothing is pushed, the status is
  \<open>FAILED\<close>, and the log holds no \<open>FIXED\<close> issue.
\<close>

theorem commit_and_push_gate:
  "((final_status (startOrchestrator orc G branchName files) = PASSED)
      = success (last (sandbox_results (history (healing_loop orc 1 (initial_state files))))))
   \<and> final_status (startOrchestrator orc G' branchName files)
       = final_status (startOrchestrator orc G branchName files)
   \<and> (allFixes (healing_loop orc 1 (initial_state files)) \<noteq> []
        \<or> isSuccess (healing_loop orc 1 (initial_state files)) \<longrightarrow>
        added_files (git_history (startOrchestrator orc G branchName files))
          = map file (filter (\<lambda>iss. status iss = FIXED)
                        (log_file (healing_loop orc 1 (initial_state files))))
        \<and> commit_messages (git_history (startOrchestrator orc G branchName files))
          = map (\<lambda>(j, fx). commit_message fx)
              (filter (\<lambda>(j, fx). add_result G j = Returns ())
                 (enumerate 0 (filter (\<lambda>iss. status iss = FIXED)
                                  (log_file (healing_loop orc 1 (initial_state files))))))
        \<and> fixes_reported (startOrchestrator orc G branchName files)
          = map (\<lambda>(j, fx). (fx, commit_message fx))
              (filter (\<lambda>(j, fx). add_result G j = Returns () \<and> commit_result G j = Returns ())
                 (enumerate 0 (filter (\<lambda>iss. status iss = FIXED)
                                  (log_file (healing_loop orc 1 (initial_state files))))))
        \<and> pushes (git_history (startOrchestrator orc G branchName files)) = [branchName]
        \<and> last (git_history (startOrchestrator orc G branchName files)) = GitPush branchName
        \<and> (\<forall>e. push_result G = Throws e \<longrightarrow>
              PushFailed e \<in> set (output_log (startOrchestrator orc G branchName files))))
   \<and> (allFixes (healing_loop orc 1 (initial_state files)) = []
        \<and> \<not> isSuccess (healing_loop orc 1 (initial_state files)) \<longrightarrow>
        git_history (startOrchestrator orc G branchName files) = []
        \<and> final_status (startOrchestrator orc G branchName files) = FAILED
        \<and> filter (\<lambda>iss. status iss = FIXED)
             (log_file (healing_loop orc 1 (initial_state files))) = [])"
proof -
  let ?st = "healing_loop orc 1 (initial_state files)"
  let ?fixed = "filter (\<lambda>iss. status iss = FIXED) (log_file ?st)"
  let ?c = "commitFixes G 0 ?fixed \<lparr>committed = [], git_calls = [], log_lines = []\<rparr>"
  have last_res: "isSuccess ?st = success (last (sandbox_results (history ?st)))"
    using healing_loop_last_result [of "initial_state files" 1 orc]
    by (simp add: initial_state_def MAX_ITER_def)
  have status: "final_status (startOrchestrator orc H branchName files)
      = (if isSuccess ?st then PASSED else FAILED)" for H
    by (simp add: startOrchestrator_def finish_run_def Let_def)
  have inv: "(\<exists>x\<in>set (log_file ?st). status x = FIXED) \<longrightarrow> allFixes ?st \<noteq> []"
    using healing_loop_fixed_inv [of "initial_state files" orc 1]
    by (simp add: initial_state_def)
  have p1: "(final_status (startOrchestrator orc G branchName files) = PASSED)
      = success (last (sandbox_results (history ?st)))"
    using last_res by (simp add: status)
  have p2: "final_status (startOrchestrator orc G' branchName files)
       = final_status (startOrchestrator orc G branchName files)"
    by (simp add: status)
  have p3: "added_files (git_history (startOrchestrator orc G branchName files)) = map file ?fixed
        \<and> commit_messages (git_history (startOrchestrator orc G branchName files))
          = map (\<lambda>(j, fx). commit_message fx)
              (filter (\<lambda>(j, fx). add_result G j = Returns ()) (enumerate 0 ?fixed))
        \<and> fixes_reported (startOrchestrator orc G branchName files)
          = map (\<lambda>(j, fx). (fx, commit_message fx))
              (filter (\<lambda>(j, fx). add_result G j = Returns () \<and> commit_result G j = Returns ())
                 (enumerate 0 ?fixed))
        \<and> pushes (git_history (startOrchestrator orc G branchName files)) = [branchName]
        \<and> last (git_history (startOrchestrator orc G branchName files)) = GitPush branchName
        \<and> (\<forall>e. push_result G = Throws e \<longrightarrow>
              PushFailed e \<in> set (output_log (startOrchestrator orc G branchName files)))"
    if gate: "allFixes ?st \<noteq> [] \<or> isSuccess ?st"
  proof -
    have R: "startOrchestrator orc G branchName files =
        \<lparr>final_status = (if isSuccess ?st then PASSED else FAILED),
         fixes_reported = committed ?c,
         git_history = git_calls ?c @ [GitPush branchName],
         output_log = log_lines ?c
           @ (case push_result G of Returns _ \<Rightarrow> [PushOk] | Throws e \<Rightarrow> [PushFailed e])\<rparr>"
      using gate by (simp add: startOrchestrator_def finish_run_def Let_def)
    show ?thesis
      unfolding R
      using commitFixes_calls [of G 0 ?fixed "\<lparr>committed = [], git_calls = [], log_lines = []\<rparr>"]
      by simp
  qed
  have p4: "git_history (startOrchestrator orc G branchName files) = []
        \<and> final_status (startOrchestrator orc G branchName files) = FAILED
        \<and> ?fixed = []"
    if nogate: "allFixes ?st = [] \<and> \<not> isSuccess ?st"
  proof -
    have "\<forall>x\<in>set (log_file ?st). status x \<noteq> FIXED" using inv nogate by blast
    then have "?fixed = []" by (simp add: filter_empty_conv)
    with nogate show ?thesis by (simp add: startOrchestrator_def finish_run_def)
  qed
  from p1 p2 p3 p4 show ?thesis by blast
qed

section \<open>Runs of the healing loop\<close>

lemmas run_eval =
  healing_loop.simps loop_body_def Let_def MAX_ITER_def initial_state_def runSolver_def
  solve_issue_def updateIssueStatus_def substring0_def
  merge_issues_def scan_log_def scan_step_def existingFixed_def match_keys_def issue_key_def
  fuzzy_key_def addressedKeys_def nothing_found_def reopen_def regression_note_def
  show_nat_0 show_nat_5 show_nat_8

lemmas finish_eval =
  startOrchestrator_def finish_run_def commit_one_def commit_message_def skipped_line_def

text \<open>
  Claim C9 as stated (the branch is pushed in every run that reaches the end, whether it
  passed or failed) fails: when the tests fail and the diagnostic call reports nothing, the
  run ends \<open>FAILED\<close> with no fix applied, and nothing is committed or pushed.
\<close>

theorem no_push_without_fixes_counterexample:
  "startOrchestrator
      \<lparr>engine_run = (\<lambda>i t. \<lparr>success = False, output = ''ModuleNotFoundError''\<rparr>),
       analyzeOutput = (\<lambda>i out. []),
       solver_at = (\<lambda>i. \<lparr>resolve = (\<lambda>f. ''/tmp/repo/'' @ f),
                          repair_oracle = (\<lambda>k iss content snippet. Returns content),
                          clock = (\<lambda>k. ''t'')\<rparr>)\<rparr>
      \<lparr>add_result = (\<lambda>k. Returns ()), commit_result = (\<lambda>k. Returns ()),
       push_result = Returns ()\<rparr>
      ''TEAM_LEAD_AI_Fix_1'' [''/tmp/repo/a.py'' \<mapsto> RegularFile ''x'']
   = \<lparr>final_status = FAILED, fixes_reported = [], git_history = [], output_log = []\<rparr>"
  by (simp add: run_eval finish_eval)

text \<open>
  A run that fails once, has one issue repaired and then passes, while the push is
  rejected: the fix is committed, the push is attempted and its failure logged, and the
  status is \<open>PASSED\<close>.
\<close>

theorem commit_and_push_gate_witness:
  "isSuccess (healing_loop
      \<lparr>engine_run = (\<lambda>i t. if i = 1 then \<lparr>success = False, output = ''1 failed''\<rparr>
                            else \<lparr>success = True, output = ''1 passed''\<rparr>),
       analyzeOutput = (\<lambda>i out. [\<lparr>file = ''a.py'', type = ''LOGIC'', line = 8,
            description = ''wrong sign'', status = OPEN, discoveredAt = None, fixedAt = None\<rparr>]),
       solver_at = (\<lambda>i. \<lparr>resolve = (\<lambda>f. ''/tmp/repo/'' @ f),
                          repair_oracle = (\<lambda>k iss content snippet. Returns ''y''),
                          clock = (\<lambda>k. ''t'')\<rparr>)\<rparr>
      1 (initial_state [''/tmp/repo/a.py'' \<mapsto> RegularFile ''x'']))
   \<and> git_history (startOrchestrator
      \<lparr>engine_run = (\<lambda>i t. if i = 1 then \<lparr>success = False, output = ''1 failed''\<rparr>
                            else \<lparr>success = True, output = ''1 passed''\<rparr>),
       analyzeOutput = (\<lambda>i out. [\<lparr>file = ''a.py'', type = ''LOGIC'', line = 8,
            description = ''wrong sign'', status = OPEN, discoveredAt = None, fixedAt = None\<rparr>]),
       solver_at = (\<lambda>i. \<lparr>resolve = (\<lambda>f. ''/tmp/repo/'' @ f),
                          repair_oracle = (\<lambda>k iss content snippet. Returns ''y''),
                          clock = (\<lambda>k. ''t'')\<rparr>)\<rparr>
      \<lparr>add_result = (\<lambda>k. Returns ()), commit_result = (\<lambda>k. Returns ()),
       push_result = Throws ''remote rejected''\<rparr>
      ''TEAM_LEAD_AI_Fix_1'' [''/tmp/repo/a.py'' \<mapsto> RegularFile ''x''])
     = [GitAdd ''a.py'', GitCommit ''[AI-AGENT] Fix LOGIC in a.py: wrong sign'',
        GitPush ''TEAM_LEAD_AI_Fix_1'']
   \<and> final_status (startOrchestrator
      \<lparr>engine_run = (\<lambda>i t. if i = 1 then \<lparr>success = False, output = ''1 failed''\<rparr>
                            else \<lparr>success = True, output = ''1 passed''\<rparr>),
       analyzeOutput = (\<lambda>i out. [\<lparr>file = ''a.py'', type = ''LOGIC'', line = 8,
            description = ''wrong sign'', status = OPEN, discoveredAt = None, fixedAt = None\<rparr>]),
       solver_at = (\<lambda>i. \<lparr>resolve = (\<lambda>f. ''/tmp/repo/'' @ f),
                          repair_oracle = (\<lambda>k iss content snippet. Returns ''y''),
                          clock = (\<lambda>k. ''t'')\<rparr>)\<rparr>
      \<lparr>add_result = (\<lambda>k. Returns ()), commit_result = (\<lambda>k. Returns ()),
       push_result = Throws ''remote rejected''\<rparr>
      ''TEAM_LEAD_AI_Fix_1'' [''/tmp/repo/a.py'' \<mapsto> RegularFile ''x'']) = PASSED
   \<and> PushFailed ''remote rejected'' \<in> set (output_log (startOrchestrator
      \<lparr>engine_run = (\<lambda>i t. if i = 1 then \<lparr>success = False, output = ''1 failed''\<rparr>
                            else \<lparr>success = True, output = ''1 passed''\<rparr>),
       analyzeOutput = (\<lambda>i out. [\<lparr>file = ''a.py'', type = ''LOGIC'', line = 8,
            description = ''wrong sign'', status = OPEN, discoveredAt = None, fixedAt = None\<rparr>]),
       solver_at = (\<lambda>i. \<lparr>resolve = (\<lambda>f. ''/tmp/repo/'' @ f),
                          repair_oracle = (\<lambda>k iss content snippet. Returns ''y''),
                          clock = (\<lambda>k. ''t'')\<rparr>)\<rparr>
      \<lparr>add_result = (\<lambda>k. Returns ()), commit_result = (\<lambda>k. Returns ()),
       push_result = Throws ''remote rejected''\<rparr>
      ''TEAM_LEAD_AI_Fix_1'' [''/tmp/repo/a.py'' \<mapsto> RegularFile ''x'']))"
proof -
  let ?orc = "\<lparr>engine_run = (\<lambda>i t. if i = 1 then \<lparr>success = False, output = ''1 failed''\<rparr>
                            else \<lparr>success = True, output = ''1 passed''\<rparr>),
       analyzeOutput = (\<lambda>i out. [\<lparr>file = ''a.py'', type = ''LOGIC'', line = 8,
            description = ''wrong sign'', status = OPEN, discoveredAt = None, fixedAt = None\<rparr>]),
       solver_at = (\<lambda>i. \<lparr>resolve = (\<lambda>f. ''/tmp/repo/'' @ f),
                          repair_oracle = (\<lambda>k iss content snippet. Returns ''y''),
                          clock = (\<lambda>k. ''t'')\<rparr>)\<rparr>"
  let ?G = "\<lparr>add_result = (\<lambda>k. Returns ()), commit_result = (\<lambda>k. Returns ()),
       push_result = Throws ''remote rejected''\<rparr>"
  let ?st = "healing_loop ?orc 1 (initial_state [''/tmp/repo/a.py'' \<mapsto> RegularFile ''x''])"
  let ?R = "startOrchestrator ?orc ?G ''TEAM_LEAD_AI_Fix_1'' [''/tmp/repo/a.py'' \<mapsto> RegularFile ''x'']"
  have st: "?st = \<lparr>log_file = [\<lparr>file = ''a.py'', type = ''LOGIC'', line = 8,
            description = ''wrong sign'', status = FIXED, discoveredAt = Some 1,
            fixedAt = Some ''t''\<rparr>],
       worktree = [''/tmp/repo/a.py'' \<mapsto> RegularFile ''y''], allFixes = [(''a.py'', ''LOGIC'', ''wrong sign'', 8)],
       isSuccess = True, iterations = 2,
       history = [RunTests 1 \<lparr>success = False, output = ''1 failed''\<rparr>, Analyze 1, Solve 1,
                  RunTests 2 \<lparr>success = True, output = ''1 passed''\<rparr>]\<rparr>"
    by (simp add: run_eval)
  have gate: "allFixes ?st \<noteq> [] \<or> isSuccess ?st" unfolding st by simp
  have push: "push_result ?G = Throws ''remote rejected''" by simp
  from commit_and_push_gate [of ?orc ?G "''TEAM_LEAD_AI_Fix_1''" "[''/tmp/repo/a.py'' \<mapsto> RegularFile ''x'']" ?G] gate push
  have facts: "(final_status ?R = PASSED) = success (last (sandbox_results (history ?st)))"
    "PushFailed ''remote rejected'' \<in> set (output_log ?R)"
    by blast+
  have hist: "git_history ?R = [GitAdd ''a.py'', GitCommit ''[AI-AGENT] Fix LOGIC in a.py: wrong sign'',
        GitPush ''TEAM_LEAD_AI_Fix_1'']"
    unfolding startOrchestrator_def st by (simp add: finish_run_def commit_one_def commit_message_def substring0_def)
  have "final_status ?R = PASSED" using facts(1) unfolding st by simp
  with facts(2) hist st show ?thesis by simp
qed

text \<open>
  Claim C1 (a \<open>FIXED\<close> entry whose key is discovered again is \<open>OPEN\<close> after the merge,
  annotated and reported as reopened) fails on the code when a \<open>FIXED\<close> line-0 entry of
  the same file and type stands before it in the log: \<open>find\<close> walks the log and returns
  the first \<open>FIXED\<close> entry that matches the key or the line-0 key, so the line-0 entry is
  reopened in its place, and the entry with the discovered key stays \<open>FIXED\<close>, without
  the note and outside the reopened list. The last two equations are a whole run: lines 0
  and 5 are reported and repaired at the first iteration, line 5 is reported again at
  every later one, and at the end the line-5 entry is still \<open>FIXED\<close>.
\<close>

theorem rediscovered_exact_match_stays_FIXED:
  "merge_issues
       [\<lparr>file = ''a.py'', type = ''LOGIC'', line = 0, description = ''d0'', status = FIXED,
          discoveredAt = Some 1, fixedAt = Some ''t1''\<rparr>,
        \<lparr>file = ''a.py'', type = ''LOGIC'', line = 5, description = ''d5'', status = FIXED,
          discoveredAt = Some 1, fixedAt = Some ''t2''\<rparr>]
       [\<lparr>file = ''a.py'', type = ''LOGIC'', line = 5, description = ''again'', status = OPEN,
          discoveredAt = None, fixedAt = None\<rparr>] 2
     = [\<lparr>file = ''a.py'', type = ''LOGIC'', line = 0,
          description = ''d0 [NOTE: Previous fix failed. Try a different approach.]'',
          status = OPEN, discoveredAt = Some 1, fixedAt = Some ''t1''\<rparr>,
        \<lparr>file = ''a.py'', type = ''LOGIC'', line = 5, description = ''d5'', status = FIXED,
          discoveredAt = Some 1, fixedAt = Some ''t2''\<rparr>]
   \<and> reopened_entries
       [\<lparr>file = ''a.py'', type = ''LOGIC'', line = 0, description = ''d0'', status = FIXED,
          discoveredAt = Some 1, fixedAt = Some ''t1''\<rparr>,
        \<lparr>file = ''a.py'', type = ''LOGIC'', line = 5, description = ''d5'', status = FIXED,
          discoveredAt = Some 1, fixedAt = Some ''t2''\<rparr>]
       [\<lparr>file = ''a.py'', type = ''LOGIC'', line = 5, description = ''again'', status = OPEN,
          discoveredAt = None, fixedAt = None\<rparr>] 2
     = [\<lparr>file = ''a.py'', type = ''LOGIC'', line = 0,
          description = ''d0 [NOTE: Previous fix failed. Try a different approach.]'',
          status = OPEN, discoveredAt = Some 1, fixedAt = Some ''t1''\<rparr>]
   \<and> map line (log_file (healing_loop
      \<lparr>engine_run = (\<lambda>i t. \<lparr>success = False, output = ''1 failed''\<rparr>),
       analyzeOutput = (\<lambda>i out.
         if i = 1
         then [\<lparr>file = ''a.py'', type = ''LOGIC'', line = 0, description = ''d0'',
                  status = OPEN, discoveredAt = None, fixedAt = None\<rparr>,
               \<lparr>file = ''a.py'', type = ''LOGIC'', line = 5, description = ''d5'',
                  status = OPEN, discoveredAt = None, fixedAt = None\<rparr>]
         else [\<lparr>file = ''a.py'', type = ''LOGIC'', line = 5, description = ''again'',
                  status = OPEN, discoveredAt = None, fixedAt = None\<rparr>]),
       solver_at = (\<lambda>i. \<lparr>resolve = (\<lambda>f. ''/tmp/repo/'' @ f),
                          repair_oracle = (\<lambda>k iss content snippet. Returns content),
                          clock = (\<lambda>k. ''t'')\<rparr>)\<rparr>
      1 (initial_state [''/tmp/repo/a.py'' \<mapsto> RegularFile ''x'']))) = [0, 5]
   \<and> map status (log_file (healing_loop
      \<lparr>engine_run = (\<lambda>i t. \<lparr>success = False, output = ''1 failed''\<rparr>),
       analyzeOutput = (\<lambda>i out.
         if i = 1
         then [\<lparr>file = ''a.py'', type = ''LOGIC'', line = 0, description = ''d0'',
                  status = OPEN, discoveredAt = None, fixedAt = None\<rparr>,
               \<lparr>file = ''a.py'', type = ''LOGIC'', line = 5, description = ''d5'',
                  status = OPEN, discoveredAt = None, fixedAt = None\<rparr>]
         else [\<lparr>file = ''a.py'', type = ''LOGIC'', line = 5, description = ''again'',
                  status = OPEN, discoveredAt = None, fixedAt = None\<rparr>]),
       solver_at = (\<lambda>i. \<lparr>resolve = (\<lambda>f. ''/tmp/repo/'' @ f),
                          repair_oracle = (\<lambda>k iss content snippet. Returns content),
                          clock = (\<lambda>k. ''t'')\<rparr>)\<rparr>
      1 (initial_state [''/tmp/repo/a.py'' \<mapsto> RegularFile ''x'']))) = [OPEN, FIXED]"
  by (simp add: run_eval reopened_entries_def)

text \<open>
  Claim C8 (an open issue whose file is missing ends \<open>FAILED_FILE_NOT_FOUND\<close>) fails on a
  log that holds two \<open>OPEN\<close> entries with one file, type and line, which a merge of a
  batch that repeats a key produces (claim C2): \<open>updateIssueStatus\<close> finds the first of
  them both times, so the second stays \<open>OPEN\<close>. The second equation is the whole run:
  the tests fail, the diagnostic call reports the issue twice, the file does not exist.
  Lemma \<open>runSolver_unique_keys\<close> shows the claim on logs without repeated keys.
\<close>

theorem runSolver_duplicate_key_left_open:
  "issues_log (runSolver
      \<lparr>resolve = (\<lambda>f. ''/tmp/repo/'' @ f),
                          repair_oracle = (\<lambda>k iss content snippet. Returns content), clock = (\<lambda>k. ''t'')\<rparr>
      [\<lparr>file = ''src/a.py'', type = ''SYNTAX'', line = 8, description = ''missing colon'',
         status = OPEN, discoveredAt = Some 1, fixedAt = None\<rparr>,
       \<lparr>file = ''src/a.py'', type = ''SYNTAX'', line = 8, description = ''expected :'',
         status = OPEN, discoveredAt = Some 1, fixedAt = None\<rparr>]
      ''1 failed''
      [\<lparr>file = ''src/a.py'', type = ''SYNTAX'', line = 8, description = ''missing colon'',
         status = OPEN, discoveredAt = Some 1, fixedAt = None\<rparr>,
       \<lparr>file = ''src/a.py'', type = ''SYNTAX'', line = 8, description = ''expected :'',
         status = OPEN, discoveredAt = Some 1, fixedAt = None\<rparr>]
      Map.empty)
   = [\<lparr>file = ''src/a.py'', type = ''SYNTAX'', line = 8, description = ''missing colon'',
         status = FAILED_FILE_NOT_FOUND, discoveredAt = Some 1, fixedAt = Some ''t''\<rparr>,
      \<lparr>file = ''src/a.py'', type = ''SYNTAX'', line = 8, description = ''expected :'',
         status = OPEN, discoveredAt = Some 1, fixedAt = None\<rparr>]
   \<and> log_file (healing_loop
      \<lparr>engine_run = (\<lambda>i t. \<lparr>success = False, output = ''1 failed''\<rparr>),
       analyzeOutput = (\<lambda>i out.
         [\<lparr>file = ''src/a.py'', type = ''SYNTAX'', line = 8, description = ''missing colon'',
            status = OPEN, discoveredAt = None, fixedAt = None\<rparr>,
          \<lparr>file = ''src/a.py'', type = ''SYNTAX'', line = 8, description = ''expected :'',
            status = OPEN, discoveredAt = None, fixedAt = None\<rparr>]),
       solver_at = (\<lambda>i. \<lparr>resolve = (\<lambda>f. ''/tmp/repo/'' @ f),
                          repair_oracle = (\<lambda>k iss content snippet. Returns content),
                          clock = (\<lambda>k. ''t'')\<rparr>)\<rparr>
      1 (initial_state Map.empty))
   = [\<lparr>file = ''src/a.py'', type = ''SYNTAX'', line = 8, description = ''missing colon'',
         status = FAILED_FILE_NOT_FOUND, discoveredAt = Some 1, fixedAt = Some ''t''\<rparr>,
      \<lparr>file = ''src/a.py'', type = ''SYNTAX'', line = 8, description = ''expected :'',
         status = OPEN, discoveredAt = Some 1, fixedAt = None\<rparr>]"
  by (simp add: run_eval)

text \<open>
  A run that never converges: the tests always fail, the same issue is reported each time
  and each repair is applied. The loop stops at the sixth test run, after five repairs.
\<close>

lemma never_converging_run:
  "iterations (healing_loop
      \<lparr>engine_run = (\<lambda>i t. \<lparr>success = False, output = ''1 failed''\<rparr>),
       analyzeOutput = (\<lambda>i out. [\<lparr>file = ''a.py'', type = ''LOGIC'', line = 8,
            description = ''wrong sign'', status = OPEN, discoveredAt = None, fixedAt = None\<rparr>]),
       solver_at = (\<lambda>i. \<lparr>resolve = (\<lambda>f. ''/tmp/repo/'' @ f),
                          repair_oracle = (\<lambda>k iss content snippet. Returns content),
                          clock = (\<lambda>k. ''t'')\<rparr>)\<rparr>
      1 (initial_state [''/tmp/repo/a.py'' \<mapsto> RegularFile ''x''])) = 6
   \<and> tests_run (history (healing_loop
      \<lparr>engine_run = (\<lambda>i t. \<lparr>success = False, output = ''1 failed''\<rparr>),
       analyzeOutput = (\<lambda>i out. [\<lparr>file = ''a.py'', type = ''LOGIC'', line = 8,
            description = ''wrong sign'', status = OPEN, discoveredAt = None, fixedAt = None\<rparr>]),
       solver_at = (\<lambda>i. \<lparr>resolve = (\<lambda>f. ''/tmp/repo/'' @ f),
                          repair_oracle = (\<lambda>k iss content snippet. Returns content),
                          clock = (\<lambda>k. ''t'')\<rparr>)\<rparr>
      1 (initial_state [''/tmp/repo/a.py'' \<mapsto> RegularFile ''x'']))) = [1, 2, 3, 4, 5, 6]
   \<and> solver_runs (history (healing_loop
      \<lparr>engine_run = (\<lambda>i t. \<lparr>success = False, output = ''1 failed''\<rparr>),
       analyzeOutput = (\<lambda>i out. [\<lparr>file = ''a.py'', type = ''LOGIC'', line = 8,
            description = ''wrong sign'', status = OPEN, discoveredAt = None, fixedAt = None\<rparr>]),
       solver_at = (\<lambda>i. \<lparr>resolve = (\<lambda>f. ''/tmp/repo/'' @ f),
                          repair_oracle = (\<lambda>k iss content snippet. Returns content),
                          clock = (\<lambda>k. ''t'')\<rparr>)\<rparr>
      1 (initial_state [''/tmp/repo/a.py'' \<mapsto> RegularFile ''x'']))) = [1, 2, 3, 4, 5]"
  by (simp add: run_eval)

end
